theory Spec2Isabelle
  imports Main "HOL-Library.List_Lexorder" "HOL-Library.AList"
begin

section \<open>Data model of the alternating automaton (afa.cc)\<close>

type_synonym State = nat
type_synonym Symbol = nat

text \<open>A \<open>Node\<close> is an ordered vector of states, \<open>Nodes\<close> an ordered vector of nodes.
  Both are kept as lists in iteration order.\<close>

type_synonym Node = "State list"
type_synonym Nodes = "Node list"

record Trans =
  src :: State
  symb :: Symbol
  dst :: Nodes

record InverseResults =
  result_nodes :: Node
  sharing_list :: Node

record InverseTrans =
  inv_symb :: Symbol
  inverseResults :: "InverseResults list"

record Afa =
  transRelation :: "Trans list list"
  inverseTransRelation :: "InverseTrans list list"
  initialstates :: "State list"
  finalstates :: "State list"

text \<open>How a call can stop without a value: a failed \<open>assert\<close>, an unchecked read outside
  a vector (no check in the source, the behaviour is undefined), or a thrown
  \<open>std::runtime_error\<close> with its message.\<close>

datatype error = AssertionFailed | UndefinedBehaviour | RuntimeError string

definition bindE :: "error + 'a \<Rightarrow> ('a \<Rightarrow> error + 'b) \<Rightarrow> error + 'b" where
  "bindE m f = (case m of Inl e \<Rightarrow> Inl e | Inr a \<Rightarrow> f a)"

subsection \<open>Ordered-set primitive\<close>

text \<open>Modelled from the spec: the ordered vector \<open>OrdVec\<close> (util headers, not among the
  sources). Section 4.1: a sorted, duplicate-free sequence with membership, insertion
  (stable under repeated insertion), union by merge and a subset test.\<close>

fun ord_insert :: "'a::linorder \<Rightarrow> 'a list \<Rightarrow> 'a list" where
  "ord_insert x [] = [x]"
| "ord_insert x (y # ys) =
     (if x = y then y # ys else if x < y then x # y # ys else y # ord_insert x ys)"

fun ord_union :: "'a::linorder list \<Rightarrow> 'a list \<Rightarrow> 'a list" where
  "ord_union [] ys = ys"
| "ord_union xs [] = xs"
| "ord_union (x # xs) (y # ys) =
     (if x = y then x # ord_union xs ys
      else if x < y then x # ord_union xs (y # ys)
      else y # ord_union (x # xs) ys)"

definition IsSubsetOf :: "'a list \<Rightarrow> 'a list \<Rightarrow> bool" where
  "IsSubsetOf xs ys = (set xs \<subseteq> set ys)"

subsection \<open>Closed sets\<close>

text \<open>Modelled from the spec: the class \<open>ClosedSet\<close> (closed_set.hh, not among the
  sources). Section 3 gives the tuple (direction, minimum, maximum, antichain); section 4.6
  gives insertion, union, intersection, containment, inclusion and equality.\<close>

datatype ClosedSetType = upward_closed_set | downward_closed_set

record StateClosedSet =
  cs_type :: ClosedSetType
  min_val :: nat
  max_val :: nat
  antichain :: Nodes

text \<open>Modelled from the spec: Insert(N). Upward: drop N if any existing A is a subset of
  N; otherwise remove every existing A with N a subset of A, then add N. Downward: mirror.\<close>

definition cs_insert :: "Node \<Rightarrow> StateClosedSet \<Rightarrow> StateClosedSet" where
  "cs_insert N cs =
     (case cs_type cs of
        upward_closed_set \<Rightarrow>
          if list_ex (\<lambda>A. IsSubsetOf A N) (antichain cs) then cs
          else cs\<lparr>antichain := ord_insert N (filter (\<lambda>A. \<not> IsSubsetOf N A) (antichain cs))\<rparr>
      | downward_closed_set \<Rightarrow>
          if list_ex (\<lambda>A. IsSubsetOf N A) (antichain cs) then cs
          else cs\<lparr>antichain := ord_insert N (filter (\<lambda>A. \<not> IsSubsetOf A N) (antichain cs))\<rparr>)"

text \<open>Modelled from the spec: Insert(many) folds insertion over the elements.\<close>

fun cs_insert_nodes :: "Nodes \<Rightarrow> StateClosedSet \<Rightarrow> StateClosedSet" where
  "cs_insert_nodes [] cs = cs"
| "cs_insert_nodes (N # Ns) cs = cs_insert_nodes Ns (cs_insert N cs)"

text \<open>The constructors: without nodes, from a set of nodes, from a single node, and
  the default one (the bottom element the fixed-point loops start from).\<close>

definition cs_empty :: "ClosedSetType \<Rightarrow> nat \<Rightarrow> nat \<Rightarrow> StateClosedSet" where
  "cs_empty t lo hi = \<lparr>cs_type = t, min_val = lo, max_val = hi, antichain = []\<rparr>"

definition cs_of_nodes :: "ClosedSetType \<Rightarrow> nat \<Rightarrow> nat \<Rightarrow> Nodes \<Rightarrow> StateClosedSet" where
  "cs_of_nodes t lo hi Ns = cs_insert_nodes Ns (cs_empty t lo hi)"

definition cs_of_node :: "ClosedSetType \<Rightarrow> nat \<Rightarrow> nat \<Rightarrow> Node \<Rightarrow> StateClosedSet" where
  "cs_of_node t lo hi N = cs_insert N (cs_empty t lo hi)"

definition cs_default :: StateClosedSet where
  "cs_default = cs_empty upward_closed_set 0 0"

text \<open>Modelled from the spec: Containment of a node. Upward: N is in the set iff some
  antichain element is a subset of N. Downward: iff N is a subset of some element.\<close>

definition cs_contains :: "StateClosedSet \<Rightarrow> Node \<Rightarrow> bool" where
  "cs_contains cs N =
     (case cs_type cs of
        upward_closed_set \<Rightarrow> list_ex (\<lambda>A. IsSubsetOf A N) (antichain cs)
      | downward_closed_set \<Rightarrow> list_ex (\<lambda>A. IsSubsetOf N A) (antichain cs))"

text \<open>Modelled from the spec: Inclusion of sets. This is included in other iff every
  element of this antichain belongs to other. Equality is mutual inclusion.\<close>

definition cs_subseteq :: "StateClosedSet \<Rightarrow> StateClosedSet \<Rightarrow> bool" where
  "cs_subseteq a b = list_all (cs_contains b) (antichain a)"

definition cs_equal :: "StateClosedSet \<Rightarrow> StateClosedSet \<Rightarrow> bool" where
  "cs_equal a b = (cs_subseteq a b \<and> cs_subseteq b a)"

text \<open>Modelled from the spec: Union inserts the other closed set's antichain into this
  one (the two have the same direction at every call in afa.cc).\<close>

definition cs_Union :: "StateClosedSet \<Rightarrow> StateClosedSet \<Rightarrow> StateClosedSet" where
  "cs_Union a b = cs_insert_nodes (antichain b) a"

text \<open>Modelled from the spec: Intersection. Upward: for every pair (A, B) with A in this
  and B in other produce the union of A and B and insert all results into a fresh closed
  set. Downward: dually, with the elements common to A and B.\<close>

definition node_combine :: "ClosedSetType \<Rightarrow> Node \<Rightarrow> Node \<Rightarrow> Node" where
  "node_combine t A B =
     (case t of upward_closed_set \<Rightarrow> ord_union A B
              | downward_closed_set \<Rightarrow> filter (\<lambda>x. x \<in> set B) A)"

definition cs_intersection :: "StateClosedSet \<Rightarrow> StateClosedSet \<Rightarrow> StateClosedSet" where
  "cs_intersection a b =
     cs_insert_nodes
       (concat (map (\<lambda>A. map (\<lambda>B. node_combine (cs_type a) A B) (antichain b)) (antichain a)))
       (cs_empty (cs_type a) (min_val a) (max_val a))"

text \<open>\<open>transRelation.size() - 1\<close> on a 64-bit \<open>size_t\<close>: for the automaton
  without states it wraps to the largest value, \<open>2 ^ 64 - 1\<close>.\<close>

definition size_minus_one :: "Afa \<Rightarrow> nat" where
  "size_minus_one aut =
     (if length (transRelation aut) = 0 then 18446744073709551615
      else length (transRelation aut) - 1)"

section \<open>The transition store\<close>

text \<open>\<open>Afa::perform_trans\<close>: the assertion, then the first entry of the state's list
  that carries the symbol; the empty \<open>Nodes\<close> when there is none. The result is a fresh
  heap copy (\<open>std::make_unique<Nodes>(transVec.dst)\<close>), so it is a value here.\<close>

fun perform_trans_loop :: "Symbol \<Rightarrow> Trans list \<Rightarrow> Nodes" where
  "perform_trans_loop sy [] = []"
| "perform_trans_loop sy (transVec # rest) =
     (if symb transVec = sy then dst transVec else perform_trans_loop sy rest)"

definition perform_trans :: "Afa \<Rightarrow> State \<Rightarrow> Symbol \<Rightarrow> error + Nodes" where
  "perform_trans aut s sy =
     (if s < length (transRelation aut)
      then Inr (perform_trans_loop sy (transRelation aut ! s))
      else Inl AssertionFailed)"

text \<open>\<open>Afa::add_trans\<close>. When the lookup is non-empty the closed set is built, the new
  nodes are inserted and the antichain is assigned through \<open>nodesPtr\<close>; that pointer owns
  the copy made by \<open>perform_trans\<close>, which dies at the \<open>return\<close>, and the automaton is
  left as it was. Otherwise the transition is pushed to the back of the state's list.\<close>

definition add_trans :: "Afa \<Rightarrow> Trans \<Rightarrow> error + Afa" where
  "add_trans aut tr =
     bindE (perform_trans aut (src tr) (symb tr)) (\<lambda>nodesPtr.
       if nodesPtr \<noteq> [] then
         (let cl = cs_of_nodes upward_closed_set 0 (size_minus_one aut) nodesPtr;
              cl = cs_insert_nodes (dst tr) cl;
              nodesPtr = antichain cl
          in Inr aut)
       else Inr (aut\<lparr>transRelation :=
                  (transRelation aut)[src tr := transRelation aut ! src tr @ [tr]]\<rparr>))"

text \<open>\<open>Afa::perform_inverse_trans(State, Symbol)\<close>: no assertion guards the read of
  \<open>inverseTransRelation[src]\<close>.\<close>

fun perform_inverse_trans_loop :: "Symbol \<Rightarrow> InverseTrans list \<Rightarrow> InverseResults list" where
  "perform_inverse_trans_loop sy [] = []"
| "perform_inverse_trans_loop sy (element # rest) =
     (if inv_symb element = sy then inverseResults element
      else perform_inverse_trans_loop sy rest)"

definition perform_inverse_trans :: "Afa \<Rightarrow> State \<Rightarrow> Symbol \<Rightarrow> error + InverseResults list" where
  "perform_inverse_trans aut s sy =
     (if s < length (inverseTransRelation aut)
      then Inr (perform_inverse_trans_loop sy (inverseTransRelation aut ! s))
      else Inl UndefinedBehaviour)"

text \<open>\<open>Afa::add_inverse_trans\<close>, one round of its loop over the destination nodes.
  The search loop \<open>for(auto result : inverseTransResults)\<close> walks copies of the elements
  of a vector that was itself returned by value: the insertion of the source state into
  \<open>result.result_nodes\<close> is made on that copy, and only \<open>found\<close> survives the loop.
  The last loop pushes into the first bucket that carries the symbol.\<close>

fun push_inverse_result :: "Symbol \<Rightarrow> InverseResults \<Rightarrow> InverseTrans list \<Rightarrow> InverseTrans list" where
  "push_inverse_result sy r [] = []"
| "push_inverse_result sy r (transVec # rest) =
     (if inv_symb transVec = sy
      then transVec\<lparr>inverseResults := inverseResults transVec @ [r]\<rparr> # rest
      else transVec # push_inverse_result sy r rest)"

definition add_inverse_trans_node :: "State \<Rightarrow> Symbol \<Rightarrow> Node \<Rightarrow> Afa \<Rightarrow> error + Afa" where
  "add_inverse_trans_node s sy node aut =
     (case node of
        [] \<Rightarrow> Inl UndefinedBehaviour
      | storeTo # _ \<Rightarrow>
          bindE (perform_inverse_trans aut storeTo sy) (\<lambda>inverseTransResults.
            let found = list_ex (\<lambda>result. sharing_list result = node) inverseTransResults;
                fresh = \<lparr>result_nodes = [s], sharing_list = node\<rparr>;
                bucket = inverseTransRelation aut ! storeTo
            in if found then Inr aut
               else if inverseTransResults = []
               then Inr (aut\<lparr>inverseTransRelation := (inverseTransRelation aut)
                      [storeTo := bucket @ [\<lparr>inv_symb = sy, inverseResults = [fresh]\<rparr>]]\<rparr>)
               else Inr (aut\<lparr>inverseTransRelation := (inverseTransRelation aut)
                      [storeTo := push_inverse_result sy fresh bucket]\<rparr>)))"

fun add_inverse_trans_loop :: "State \<Rightarrow> Symbol \<Rightarrow> Nodes \<Rightarrow> Afa \<Rightarrow> error + Afa" where
  "add_inverse_trans_loop s sy [] aut = Inr aut"
| "add_inverse_trans_loop s sy (node # rest) aut =
     bindE (add_inverse_trans_node s sy node aut) (add_inverse_trans_loop s sy rest)"

definition add_inverse_trans :: "Afa \<Rightarrow> Trans \<Rightarrow> error + Afa" where
  "add_inverse_trans aut tr = add_inverse_trans_loop (src tr) (symb tr) (dst tr) aut"

text \<open>\<open>Afa::has_trans\<close>.\<close>

definition has_trans :: "Afa \<Rightarrow> Trans \<Rightarrow> error + bool" where
  "has_trans aut tr =
     bindE (perform_trans aut (src tr) (symb tr)) (\<lambda>res.
       Inr (res \<noteq> [] \<and> IsSubsetOf res (dst tr)))"

section \<open>Predicate transformers\<close>

text \<open>\<open>Afa::post(State, Symbol)\<close>.\<close>

definition post_state :: "Afa \<Rightarrow> State \<Rightarrow> Symbol \<Rightarrow> error + StateClosedSet" where
  "post_state aut state sy =
     bindE (perform_trans aut state sy) (\<lambda>result.
       if result \<noteq> []
       then Inr (cs_of_nodes upward_closed_set 0 (size_minus_one aut) result)
       else Inr (cs_empty upward_closed_set 0 (size_minus_one aut)))"

text \<open>\<open>Afa::post(Node, Symbol)\<close>: the loop over the states of the node with its flag
  \<open>used\<close>; the first state's result is inserted, every later one is intersected.\<close>

fun post_node_symb_loop ::
  "Afa \<Rightarrow> Symbol \<Rightarrow> State list \<Rightarrow> bool \<Rightarrow> StateClosedSet \<Rightarrow> error + StateClosedSet" where
  "post_node_symb_loop aut sy [] used result = Inr result"
| "post_node_symb_loop aut sy (state # rest) used result =
     bindE (post_state aut state sy) (\<lambda>p.
       if \<not> used
       then post_node_symb_loop aut sy rest True (cs_insert_nodes (antichain p) result)
       else post_node_symb_loop aut sy rest used (cs_intersection result p))"

definition post_node_symb :: "Afa \<Rightarrow> Node \<Rightarrow> Symbol \<Rightarrow> error + StateClosedSet" where
  "post_node_symb aut node sy =
     (let result = cs_empty upward_closed_set 0 (size_minus_one aut)
      in if node = [] then Inr (cs_insert node result)
         else post_node_symb_loop aut sy node False result)"

text \<open>\<open>Afa::post(Nodes, Symbol)\<close> and \<open>Afa::post(StateClosedSet, Symbol)\<close>.\<close>

fun post_nodes_symb_loop :: "Afa \<Rightarrow> Symbol \<Rightarrow> Nodes \<Rightarrow> StateClosedSet \<Rightarrow> error + StateClosedSet" where
  "post_nodes_symb_loop aut sy [] result = Inr result"
| "post_nodes_symb_loop aut sy (node # rest) result =
     bindE (post_node_symb aut node sy) (\<lambda>p.
       post_nodes_symb_loop aut sy rest (cs_insert_nodes (antichain p) result))"

definition post_nodes_symb :: "Afa \<Rightarrow> Nodes \<Rightarrow> Symbol \<Rightarrow> error + StateClosedSet" where
  "post_nodes_symb aut nodes sy =
     post_nodes_symb_loop aut sy nodes (cs_empty upward_closed_set 0 (size_minus_one aut))"

definition post_closed_set_symb :: "Afa \<Rightarrow> StateClosedSet \<Rightarrow> Symbol \<Rightarrow> error + StateClosedSet" where
  "post_closed_set_symb aut closed_set sy =
     (if cs_type closed_set = upward_closed_set
      then post_nodes_symb aut (antichain closed_set) sy
      else Inl AssertionFailed)"

text \<open>\<open>Afa::post(Node)\<close>: the symbols are those of the move list of the node's first
  state, read as \<open>transRelation[*(node.begin())]\<close> without a check.\<close>

fun post_node_loop :: "Afa \<Rightarrow> Node \<Rightarrow> Trans list \<Rightarrow> StateClosedSet \<Rightarrow> error + StateClosedSet" where
  "post_node_loop aut node [] result = Inr result"
| "post_node_loop aut node (transVec # rest) result =
     bindE (post_node_symb aut node (symb transVec)) (\<lambda>p.
       post_node_loop aut node rest (cs_insert_nodes (antichain p) result))"

definition post_node :: "Afa \<Rightarrow> Node \<Rightarrow> error + StateClosedSet" where
  "post_node aut node =
     (case node of
        [] \<Rightarrow> Inr (cs_of_nodes upward_closed_set 0 (size_minus_one aut) [[]])
      | first # _ \<Rightarrow>
          if first < length (transRelation aut)
          then post_node_loop aut node (transRelation aut ! first)
                 (cs_empty upward_closed_set 0 (size_minus_one aut))
          else Inl UndefinedBehaviour)"

text \<open>\<open>Afa::post(Nodes)\<close>.\<close>

fun post_nodes_loop :: "Afa \<Rightarrow> Nodes \<Rightarrow> StateClosedSet \<Rightarrow> error + StateClosedSet" where
  "post_nodes_loop aut [] result = Inr result"
| "post_nodes_loop aut (node # rest) result =
     bindE (post_node aut node) (\<lambda>p.
       post_nodes_loop aut rest (cs_insert_nodes (antichain p) result))"

definition post_nodes :: "Afa \<Rightarrow> Nodes \<Rightarrow> error + StateClosedSet" where
  "post_nodes aut nodes =
     post_nodes_loop aut nodes (cs_empty upward_closed_set 0 (size_minus_one aut))"

text \<open>Modelled from the spec: \<open>post(StateClosedSet)\<close> without a symbol is declared in
  afa.hh only. Section 4.8 lifts post to a closed set through its antichain.\<close>

definition post_closed_set :: "Afa \<Rightarrow> StateClosedSet \<Rightarrow> error + StateClosedSet" where
  "post_closed_set aut closed_set = post_nodes aut (antichain closed_set)"

text \<open>\<open>Afa::perform_inverse_trans(Node, Symbol)\<close>: the results of the states, appended.\<close>

fun perform_inverse_trans_node :: "Afa \<Rightarrow> Node \<Rightarrow> Symbol \<Rightarrow> error + InverseResults list" where
  "perform_inverse_trans_node aut [] sy = Inr []"
| "perform_inverse_trans_node aut (state # rest) sy =
     bindE (perform_inverse_trans aut state sy) (\<lambda>subresult.
       bindE (perform_inverse_trans_node aut rest sy) (\<lambda>more. Inr (subresult @ more)))"

text \<open>\<open>Afa::pre(Node, Symbol)\<close>: every candidate whose sharing list is a subset of the
  node gives its result nodes to one node, whose downward closure is returned.\<close>

fun pre_collect :: "Node \<Rightarrow> InverseResults list \<Rightarrow> Node \<Rightarrow> Node" where
  "pre_collect node [] result = result"
| "pre_collect node (candidate # rest) result =
     (if IsSubsetOf (sharing_list candidate) node
      then pre_collect node rest (fold ord_insert (result_nodes candidate) result)
      else pre_collect node rest result)"

definition pre_node_symb :: "Afa \<Rightarrow> Node \<Rightarrow> Symbol \<Rightarrow> error + StateClosedSet" where
  "pre_node_symb aut node sy =
     bindE (perform_inverse_trans_node aut node sy) (\<lambda>candidates.
       Inr (cs_of_node downward_closed_set 0 (size_minus_one aut) (pre_collect node candidates [])))"

text \<open>\<open>Afa::pre(Node)\<close>: the symbols are those of the inverse bucket of the node's
  first state.\<close>

fun pre_node_loop :: "Afa \<Rightarrow> Node \<Rightarrow> InverseTrans list \<Rightarrow> StateClosedSet \<Rightarrow> error + StateClosedSet" where
  "pre_node_loop aut node [] result = Inr result"
| "pre_node_loop aut node (transVec # rest) result =
     bindE (pre_node_symb aut node (inv_symb transVec)) (\<lambda>p.
       pre_node_loop aut node rest (cs_insert_nodes (antichain p) result))"

definition pre_node :: "Afa \<Rightarrow> Node \<Rightarrow> error + StateClosedSet" where
  "pre_node aut node =
     (case node of
        [] \<Rightarrow> Inr (cs_of_nodes downward_closed_set 0 (size_minus_one aut) [[]])
      | first # _ \<Rightarrow>
          if first < length (inverseTransRelation aut)
          then pre_node_loop aut node (inverseTransRelation aut ! first)
                 (cs_empty downward_closed_set 0 (size_minus_one aut))
          else Inl UndefinedBehaviour)"

text \<open>\<open>Afa::pre(Nodes)\<close>.\<close>

fun pre_nodes_loop :: "Afa \<Rightarrow> Nodes \<Rightarrow> StateClosedSet \<Rightarrow> error + StateClosedSet" where
  "pre_nodes_loop aut [] result = Inr result"
| "pre_nodes_loop aut (node # rest) result =
     bindE (pre_node aut node) (\<lambda>p.
       pre_nodes_loop aut rest (cs_insert_nodes (antichain p) result))"

definition pre_nodes :: "Afa \<Rightarrow> Nodes \<Rightarrow> error + StateClosedSet" where
  "pre_nodes aut nodes =
     pre_nodes_loop aut nodes (cs_empty downward_closed_set 0 (size_minus_one aut))"

text \<open>Modelled from the spec: \<open>pre(StateClosedSet)\<close> without a symbol is declared in
  afa.hh only. Section 4.8 lifts pre to a closed set through its antichain.\<close>

definition pre_closed_set :: "Afa \<Rightarrow> StateClosedSet \<Rightarrow> error + StateClosedSet" where
  "pre_closed_set aut closed_set = pre_nodes aut (antichain closed_set)"

section \<open>Initial and final regions\<close>

text \<open>Modelled from the spec: \<open>has_initial\<close> and \<open>has_final\<close> are declared in afa.hh
  only; they are the membership tests of the two state sets (section 4.3).\<close>

definition has_initial :: "Afa \<Rightarrow> State \<Rightarrow> bool" where
  "has_initial aut s = (s \<in> set (initialstates aut))"

definition has_final :: "Afa \<Rightarrow> State \<Rightarrow> bool" where
  "has_final aut s = (s \<in> set (finalstates aut))"

text \<open>The four loops \<open>for(State state = 0; state < transRelation.size(); ++state)\<close>.
  Inserting a state into a closed set inserts its singleton node; the states collected
  in an \<open>OrdVec\<close> arrive in increasing order.\<close>

definition get_initial_nodes :: "Afa \<Rightarrow> StateClosedSet" where
  "get_initial_nodes aut =
     cs_insert_nodes
       (map (\<lambda>state. [state]) (filter (has_initial aut) [0..<length (transRelation aut)]))
       (cs_empty upward_closed_set 0 (size_minus_one aut))"

definition get_non_initial_nodes :: "Afa \<Rightarrow> StateClosedSet" where
  "get_non_initial_nodes aut =
     cs_of_node downward_closed_set 0 (size_minus_one aut)
       (filter (\<lambda>state. \<not> has_initial aut state) [0..<length (transRelation aut)])"

definition get_final_nodes :: "Afa \<Rightarrow> StateClosedSet" where
  "get_final_nodes aut =
     cs_of_node downward_closed_set 0 (size_minus_one aut)
       (filter (has_final aut) [0..<length (transRelation aut)])"

definition get_non_final_nodes :: "Afa \<Rightarrow> StateClosedSet" where
  "get_non_final_nodes aut =
     cs_insert_nodes
       (map (\<lambda>state. [state])
          (filter (\<lambda>state. \<not> has_final aut state) [0..<length (transRelation aut)]))
       (cs_empty upward_closed_set 0 (size_minus_one aut))"

section \<open>Emptiness tests\<close>

text \<open>The loops of the four tests take a number of rounds they may run; \<open>None\<close> is a
  loop that has not left within them.\<close>

text \<open>\<open>antichain_concrete_forward_emptiness_test_old\<close>.\<close>

fun forward_old_loop ::
  "nat \<Rightarrow> Afa \<Rightarrow> StateClosedSet \<Rightarrow> StateClosedSet \<Rightarrow> StateClosedSet \<Rightarrow> (error + bool) option" where
  "forward_old_loop 0 aut goal current nxt = None"
| "forward_old_loop (Suc fuel) aut goal current nxt =
     (if cs_equal current nxt then Some (Inr True)
      else (case post_closed_set aut nxt of
              Inl e \<Rightarrow> Some (Inl e)
            | Inr p \<Rightarrow>
                if \<not> cs_subseteq (cs_Union nxt p) goal then Some (Inr False)
                else forward_old_loop fuel aut goal nxt (cs_Union nxt p)))"

definition antichain_concrete_forward_emptiness_test_old :: "nat \<Rightarrow> Afa \<Rightarrow> (error + bool) option" where
  "antichain_concrete_forward_emptiness_test_old fuel aut =
     forward_old_loop fuel aut (get_non_final_nodes aut) cs_default (get_initial_nodes aut)"

text \<open>\<open>antichain_concrete_forward_emptiness_test_new\<close>. The inner loop over the
  antichain of the post image either leaves the test with \<open>false\<close> (here \<open>None\<close>) or
  hands back the work list.\<close>

fun worklist_scan :: "StateClosedSet \<Rightarrow> Nodes \<Rightarrow> Nodes \<Rightarrow> Nodes \<Rightarrow> Nodes option" where
  "worklist_scan goal processed [] worklist = Some worklist"
| "worklist_scan goal processed (node # rest) worklist =
     (if \<not> cs_contains goal node then None
      else if node \<notin> set processed then worklist_scan goal processed rest (worklist @ [node])
      else worklist_scan goal processed rest worklist)"

fun forward_new_loop ::
  "nat \<Rightarrow> Afa \<Rightarrow> StateClosedSet \<Rightarrow> StateClosedSet \<Rightarrow> Nodes \<Rightarrow> Nodes \<Rightarrow> (error + bool) option" where
  "forward_new_loop 0 aut goal result processed worklist = None"
| "forward_new_loop (Suc fuel) aut goal result processed worklist =
     (if worklist = [] then Some (Inr True)
      else (case post_node aut (last worklist) of
              Inl e \<Rightarrow> Some (Inl e)
            | Inr post_current \<Rightarrow>
                (case worklist_scan goal processed (antichain post_current) (butlast worklist) of
                   None \<Rightarrow> Some (Inr False)
                 | Some worklist' \<Rightarrow>
                     forward_new_loop fuel aut goal (cs_Union result post_current)
                       (ord_insert (last worklist) processed) worklist')))"

definition antichain_concrete_forward_emptiness_test_new :: "nat \<Rightarrow> Afa \<Rightarrow> (error + bool) option" where
  "antichain_concrete_forward_emptiness_test_new fuel aut =
     (let goal = get_non_final_nodes aut; result = get_initial_nodes aut
      in if \<not> cs_subseteq result goal then Some (Inr False)
         else forward_new_loop fuel aut goal result [] (antichain (get_initial_nodes aut)))"

text \<open>\<open>antichain_concrete_backward_emptiness_test_old\<close>.\<close>

fun backward_old_loop ::
  "nat \<Rightarrow> Afa \<Rightarrow> StateClosedSet \<Rightarrow> StateClosedSet \<Rightarrow> StateClosedSet \<Rightarrow> (error + bool) option" where
  "backward_old_loop 0 aut goal current nxt = None"
| "backward_old_loop (Suc fuel) aut goal current nxt =
     (if cs_equal current nxt then Some (Inr True)
      else (case pre_closed_set aut nxt of
              Inl e \<Rightarrow> Some (Inl e)
            | Inr p \<Rightarrow>
                if \<not> cs_subseteq (cs_Union nxt p) goal then Some (Inr False)
                else backward_old_loop fuel aut goal nxt (cs_Union nxt p)))"

definition antichain_concrete_backward_emptiness_test_old :: "nat \<Rightarrow> Afa \<Rightarrow> (error + bool) option" where
  "antichain_concrete_backward_emptiness_test_old fuel aut =
     backward_old_loop fuel aut (get_non_initial_nodes aut) cs_default (get_final_nodes aut)"

text \<open>\<open>antichain_concrete_backward_emptiness_test_new\<close>.\<close>

fun backward_new_loop ::
  "nat \<Rightarrow> Afa \<Rightarrow> StateClosedSet \<Rightarrow> StateClosedSet \<Rightarrow> Nodes \<Rightarrow> Nodes \<Rightarrow> (error + bool) option" where
  "backward_new_loop 0 aut goal result processed worklist = None"
| "backward_new_loop (Suc fuel) aut goal result processed worklist =
     (if worklist = [] then Some (Inr True)
      else (case pre_node aut (last worklist) of
              Inl e \<Rightarrow> Some (Inl e)
            | Inr pre_current \<Rightarrow>
                (case worklist_scan goal processed (antichain pre_current) (butlast worklist) of
                   None \<Rightarrow> Some (Inr False)
                 | Some worklist' \<Rightarrow>
                     backward_new_loop fuel aut goal (cs_Union result pre_current)
                       (ord_insert (last worklist) processed) worklist')))"

definition antichain_concrete_backward_emptiness_test_new :: "nat \<Rightarrow> Afa \<Rightarrow> (error + bool) option" where
  "antichain_concrete_backward_emptiness_test_new fuel aut =
     (let goal = get_non_initial_nodes aut; result = get_final_nodes aut
      in if \<not> cs_subseteq result goal then Some (Inr False)
         else backward_new_loop fuel aut goal result [] (antichain (get_final_nodes aut)))"

section \<open>Serialization\<close>

text \<open>The parsed section: its type tag, its dictionary (a \<open>std::map\<close> from strings to
  lists of strings, kept as an association list) and its body of token lines.\<close>

record ParsedSection =
  ps_type :: string
  dict :: "(string \<times> string list) list"
  body :: "string list list"

definition TYPE_AFA :: string where
  "TYPE_AFA = ''AFA''"

text \<open>\<open>std::to_string\<close> of an unsigned number: its decimal digits.\<close>

fun to_string :: "nat \<Rightarrow> string" where
  "to_string n =
     (if n < 10 then [''0123456789'' ! n]
      else to_string (n div 10) @ [''0123456789'' ! (n mod 10)])"

declare to_string.simps [simp del]

text \<open>The two namers of \<open>serialize\<close>; \<open>None\<close> is the null pointer for the map.\<close>

definition state_namer :: "(State \<times> string) list option \<Rightarrow> State \<Rightarrow> bool \<times> string" where
  "state_namer state_map st =
     (case state_map of
        None \<Rightarrow> (True, ''q'' @ to_string st)
      | Some m \<Rightarrow> (case map_of m st of Some name \<Rightarrow> (True, name) | None \<Rightarrow> (False, [])))"

definition symbol_namer :: "(Symbol \<times> string) list option \<Rightarrow> Symbol \<Rightarrow> bool \<times> string" where
  "symbol_namer symbol_map sy =
     (case symbol_map of
        None \<Rightarrow> (True, ''a'' @ to_string sy)
      | Some m \<Rightarrow> (case map_of m sy of Some name \<Rightarrow> (True, name) | None \<Rightarrow> (False, [])))"

text \<open>The loop that names the states of a set, and throws at the first one without a
  name.\<close>

fun name_states :: "(State \<Rightarrow> bool \<times> string) \<Rightarrow> State list \<Rightarrow> string list \<Rightarrow> error + string list" where
  "name_states namer [] names = Inr names"
| "name_states namer (s # rest) names =
     (if \<not> fst (namer s) then Inl (RuntimeError (''cannot translate state '' @ to_string s))
      else name_states namer rest (names @ [snd (namer s)]))"

text \<open>\<open>Mata::Afa::serialize\<close>. After the two dictionary entries the source has the
  comment \<open>TODO: transitions serialization\<close> and returns; the symbol namer is built and
  never called.\<close>

definition serialize ::
  "Afa \<Rightarrow> (Symbol \<times> string) list option \<Rightarrow> (State \<times> string) list option \<Rightarrow> error + ParsedSection" where
  "serialize aut symbol_map state_map =
     (let parsec = \<lparr>ps_type = TYPE_AFA, dict = [], body = []\<rparr>
      in bindE (name_states (state_namer state_map) (initialstates aut) []) (\<lambda>init_states.
           let parsec = parsec\<lparr>dict := AList.update ''Initial'' init_states (dict parsec)\<rparr>
           in bindE (name_states (state_namer state_map) (finalstates aut) []) (\<lambda>fin_states.
                Inr (parsec\<lparr>dict := AList.update ''Final'' fin_states (dict parsec)\<rparr>))))"

section \<open>Intersection of two NFAs (nfa-intersection.cc)\<close>

record Move =
  symbol :: Symbol
  states_to :: "State list"

record Nfa =
  transition_relation :: "Move list list"
  initial_states :: "State list"
  final_states :: "State list"

text \<open>Modelled from the spec: \<open>add_state\<close>, \<open>has_final\<close> and \<open>add_final\<close> of the class
  \<open>Nfa\<close> (nfa.hh, not among the sources). Section 4.3: \<open>add_state\<close> appends a fresh state
  id, \<open>add_final\<close> and \<open>has_final\<close> manipulate the final set.\<close>

definition nfa_add_state :: "Nfa \<Rightarrow> Nfa \<times> State" where
  "nfa_add_state aut =
     (aut\<lparr>transition_relation := transition_relation aut @ [[]]\<rparr>,
      length (transition_relation aut))"

definition nfa_has_final :: "Nfa \<Rightarrow> State \<Rightarrow> bool" where
  "nfa_has_final aut s = (s \<in> set (final_states aut))"

definition nfa_add_final :: "Nfa \<Rightarrow> State \<Rightarrow> Nfa" where
  "nfa_add_final aut s = aut\<lparr>final_states := ord_insert s (final_states aut)\<rparr>"

text \<open>Modelled from the spec: the synchronized iterator over two move lists
  (\<open>SynchronizedUniverzalIterator\<close>, not among the sources). Section 4.2: each step gives
  the entries at the smallest symbol present in every list, in increasing symbol order;
  symbols present in one list only are skipped.\<close>

fun sync_moves :: "Move list \<Rightarrow> Move list \<Rightarrow> (Move \<times> Move) list" where
  "sync_moves [] ms2 = []"
| "sync_moves ms1 [] = []"
| "sync_moves (m1 # ms1) (m2 # ms2) =
     (if symbol m1 = symbol m2 then (m1, m2) # sync_moves ms1 ms2
      else if symbol m1 < symbol m2 then sync_moves ms1 (m2 # ms2)
      else sync_moves (m1 # ms1) ms2)"

text \<open>The three variables the construction works on: the product, the product map (an
  \<open>unordered_map\<close>, kept as an association list) and the set of pairs to process (an
  \<open>unordered_set\<close>, kept as a duplicate-free list).\<close>

type_synonym StatePair = "State \<times> State"

record ProductState =
  product :: Nfa
  product_map :: "(StatePair \<times> State) list"
  pairs_to_process :: "StatePair list"

definition pairs_insert :: "StatePair \<Rightarrow> StatePair list \<Rightarrow> StatePair list" where
  "pairs_insert pr ps = (if pr \<in> set ps then ps else ps @ [pr])"

text \<open>\<open>union_to_left\<close> on the entry of the move list that \<open>find\<close> returns: the first
  one with the symbol.\<close>

fun union_to_left :: "Symbol \<Rightarrow> State list \<Rightarrow> Move list \<Rightarrow> Move list" where
  "union_to_left sy addedSet [] = []"
| "union_to_left sy addedSet (m # ms) =
     (if symbol m = sy then m\<lparr>states_to := ord_union (states_to m) addedSet\<rparr> # ms
      else m # union_to_left sy addedSet ms)"

text \<open>\<open>add_product_transition\<close>. \<open>product_map[pair_to_process]\<close> on a missing key
  inserts the key with state 0; the index into the product's transition relation is not
  checked.\<close>

definition add_product_transition :: "ProductState \<Rightarrow> StatePair \<Rightarrow> Move \<Rightarrow> error + ProductState" where
  "add_product_transition st pair_to_process intersection_transition =
     (if states_to intersection_transition = [] then Inr st
      else
        (let r = (case map_of (product_map st) pair_to_process of Some r \<Rightarrow> r | None \<Rightarrow> 0);
             pm = (case map_of (product_map st) pair_to_process of
                     Some r \<Rightarrow> product_map st
                   | None \<Rightarrow> AList.update pair_to_process 0 (product_map st));
             rel = transition_relation (product st)
         in if r < length rel then
              Inr (st\<lparr>product := (product st)\<lparr>transition_relation := rel[r :=
                         (if list_ex (\<lambda>m. symbol m = symbol intersection_transition) (rel ! r)
                          then union_to_left (symbol intersection_transition)
                                 (states_to intersection_transition) (rel ! r)
                          else rel ! r @ [intersection_transition])]\<rparr>,
                      product_map := pm\<rparr>)
            else Inl UndefinedBehaviour))"

text \<open>\<open>create_product_state_and_trans\<close>: it changes the product, the map and the pending
  set, and adds the product state of the target pair to the move under construction.\<close>

definition create_product_state_and_trans ::
  "Nfa \<Rightarrow> Nfa \<Rightarrow> StatePair \<Rightarrow> ProductState \<times> Move \<Rightarrow> ProductState \<times> Move" where
  "create_product_state_and_trans lhs rhs pair_to acc =
     (let st = fst acc; intersect_transitions = snd acc
      in case map_of (product_map st) pair_to of
           None \<Rightarrow>
             (let intersect_state_to = snd (nfa_add_state (product st));
                  prod1 = fst (nfa_add_state (product st));
                  prod2 = (if nfa_has_final lhs (fst pair_to) \<and> nfa_has_final rhs (snd pair_to)
                           then nfa_add_final prod1 intersect_state_to else prod1)
              in (\<lparr>product = prod2,
                   product_map = AList.update pair_to intersect_state_to (product_map st),
                   pairs_to_process = pairs_insert pair_to (pairs_to_process st)\<rparr>,
                  intersect_transitions\<lparr>states_to :=
                    ord_insert intersect_state_to (states_to intersect_transitions)\<rparr>))
         | Some intersect_state_to \<Rightarrow>
             (st, intersect_transitions\<lparr>states_to :=
                    ord_insert intersect_state_to (states_to intersect_transitions)\<rparr>))"

text \<open>One move of the product: a fresh move with the symbol, the loop that creates the
  product state of every target pair, then \<open>add_product_transition\<close>. The source has this
  block three times, for a synchronized symbol and for the epsilon moves of either side.\<close>

definition product_move ::
  "Nfa \<Rightarrow> Nfa \<Rightarrow> StatePair \<Rightarrow> Symbol \<Rightarrow> StatePair list \<Rightarrow> ProductState \<Rightarrow> error + ProductState" where
  "product_move lhs rhs pair_to_process sy targets st =
     (let acc = fold (create_product_state_and_trans lhs rhs) targets
                  (st, \<lparr>symbol = sy, states_to = []\<rparr>)
      in add_product_transition (fst acc) pair_to_process (snd acc))"

fun sync_loop ::
  "Nfa \<Rightarrow> Nfa \<Rightarrow> StatePair \<Rightarrow> (Move \<times> Move) list \<Rightarrow> ProductState \<Rightarrow> error + ProductState" where
  "sync_loop lhs rhs pair_to_process [] st = Inr st"
| "sync_loop lhs rhs pair_to_process (moves # rest) st =
     bindE (product_move lhs rhs pair_to_process (symbol (fst moves))
              (List.product (states_to (fst moves)) (states_to (snd moves))) st)
           (sync_loop lhs rhs pair_to_process rest)"

text \<open>The two epsilon blocks. \<open>eps\<close> is the constant \<open>EPSILON\<close> of nfa.hh, which is not
  among the sources and is a parameter here.\<close>

definition lhs_epsilon :: "Symbol \<Rightarrow> Nfa \<Rightarrow> Nfa \<Rightarrow> StatePair \<Rightarrow> ProductState \<Rightarrow> error + ProductState" where
  "lhs_epsilon eps lhs rhs pair_to_process st =
     (let lhs_state_symbol_transitions = transition_relation lhs ! fst pair_to_process
      in if lhs_state_symbol_transitions \<noteq> []
            \<and> symbol (last lhs_state_symbol_transitions) = eps
         then product_move lhs rhs pair_to_process eps
                (map (\<lambda>lhs_state_to. (lhs_state_to, snd pair_to_process))
                   (states_to (last lhs_state_symbol_transitions))) st
         else Inr st)"

definition rhs_epsilon :: "Symbol \<Rightarrow> Nfa \<Rightarrow> Nfa \<Rightarrow> StatePair \<Rightarrow> ProductState \<Rightarrow> error + ProductState" where
  "rhs_epsilon eps lhs rhs pair_to_process st =
     (let rhs_state_symbol_transitions = transition_relation rhs ! snd pair_to_process
      in if rhs_state_symbol_transitions \<noteq> []
            \<and> symbol (last rhs_state_symbol_transitions) = eps
         then product_move lhs rhs pair_to_process eps
                (map (\<lambda>rhs_state_to. (fst pair_to_process, rhs_state_to))
                   (states_to (last rhs_state_symbol_transitions))) st
         else Inr st)"

text \<open>The body of the work-list loop for one pair. The two move lists are read without
  a check of the index.\<close>

definition process_pair ::
  "Symbol \<Rightarrow> Nfa \<Rightarrow> Nfa \<Rightarrow> bool \<Rightarrow> StatePair \<Rightarrow> ProductState \<Rightarrow> error + ProductState" where
  "process_pair eps lhs rhs preserve_epsilon pair_to_process st =
     (if fst pair_to_process < length (transition_relation lhs)
         \<and> snd pair_to_process < length (transition_relation rhs)
      then bindE (sync_loop lhs rhs pair_to_process
                    (sync_moves (transition_relation lhs ! fst pair_to_process)
                                (transition_relation rhs ! snd pair_to_process)) st)
             (\<lambda>st1. if preserve_epsilon
                     then bindE (lhs_epsilon eps lhs rhs pair_to_process st1)
                            (rhs_epsilon eps lhs rhs pair_to_process)
                     else Inr st1)
      else Inl UndefinedBehaviour)"

text \<open>The initial pairs.\<close>

definition init_pair :: "Nfa \<Rightarrow> Nfa \<Rightarrow> StatePair \<Rightarrow> ProductState \<Rightarrow> ProductState" where
  "init_pair lhs rhs pr st =
     (let new_intersection_state = snd (nfa_add_state (product st));
          prod1 = fst (nfa_add_state (product st));
          prod2 = prod1\<lparr>initial_states := initial_states prod1 @ [new_intersection_state]\<rparr>;
          prod3 = (if nfa_has_final lhs (fst pr) \<and> nfa_has_final rhs (snd pr)
                   then prod2\<lparr>final_states := final_states prod2 @ [new_intersection_state]\<rparr>
                   else prod2)
      in \<lparr>product = prod3,
          product_map = AList.update pr new_intersection_state (product_map st),
          pairs_to_process = pairs_insert pr (pairs_to_process st)\<rparr>)"

definition init_product :: "Nfa \<Rightarrow> Nfa \<Rightarrow> ProductState" where
  "init_product lhs rhs =
     fold (init_pair lhs rhs) (List.product (initial_states lhs) (initial_states rhs))
       \<lparr>product = \<lparr>transition_relation = [], initial_states = [], final_states = []\<rparr>,
        product_map = [], pairs_to_process = []\<rparr>"

text \<open>The work-list loop. Which pair \<open>*pairs_to_process.cbegin()\<close> is depends on the
  hash table; \<open>pick\<close> stands for that choice, made from the round and the pending pairs.
  The loop takes a number of rounds it may run, and \<open>None\<close> is a loop that has not
  emptied the set within them.\<close>

fun intersection_loop ::
  "(nat \<Rightarrow> StatePair list \<Rightarrow> nat) \<Rightarrow> nat \<Rightarrow> Symbol \<Rightarrow> Nfa \<Rightarrow> Nfa \<Rightarrow> bool \<Rightarrow> ProductState
     \<Rightarrow> (error + ProductState) option" where
  "intersection_loop pick 0 eps lhs rhs preserve_epsilon st = None"
| "intersection_loop pick (Suc fuel) eps lhs rhs preserve_epsilon st =
     (if pairs_to_process st = [] then Some (Inr st)
      else
        (let pair_to_process =
               pairs_to_process st
                 ! (pick fuel (pairs_to_process st) mod length (pairs_to_process st))
         in case process_pair eps lhs rhs preserve_epsilon pair_to_process
                   (st\<lparr>pairs_to_process := removeAll pair_to_process (pairs_to_process st)\<rparr>) of
              Inl e \<Rightarrow> Some (Inl e)
            | Inr st' \<Rightarrow> intersection_loop pick fuel eps lhs rhs preserve_epsilon st'))"

text \<open>\<open>Mata::Nfa::intersection\<close>: the product and the product map.\<close>

definition intersection ::
  "(nat \<Rightarrow> StatePair list \<Rightarrow> nat) \<Rightarrow> nat \<Rightarrow> Symbol \<Rightarrow> Nfa \<Rightarrow> Nfa \<Rightarrow> bool
     \<Rightarrow> (error + Nfa \<times> (StatePair \<times> State) list) option" where
  "intersection pick fuel eps lhs rhs preserve_epsilon =
     map_option (map_sum id (\<lambda>st. (product st, product_map st)))
       (intersection_loop pick fuel eps lhs rhs preserve_epsilon (init_product lhs rhs))"

section \<open>Invariants of the product construction\<close>

text \<open>The product has a transition from \<open>r\<close> to \<open>r'\<close> under a symbol when the move list
  of \<open>r\<close> has an entry with the symbol whose targets include \<open>r'\<close>.\<close>

definition has_transition :: "Nfa \<Rightarrow> State \<Rightarrow> Symbol \<Rightarrow> State \<Rightarrow> bool" where
  "has_transition aut r sy r' =
     (r < length (transition_relation aut)
      \<and> list_ex (\<lambda>m. symbol m = sy \<and> r' \<in> set (states_to m)) (transition_relation aut ! r))"

text \<open>Every final state and every mapped state is a state of the product, a mapped
  state is final exactly when both components of its pair are, and every pending pair
  is mapped.\<close>

definition final_inv :: "Nfa \<Rightarrow> Nfa \<Rightarrow> ProductState \<Rightarrow> bool" where
  "final_inv lhs rhs st =
     ((\<forall>r \<in> set (final_states (product st)). r < length (transition_relation (product st)))
      \<and> (\<forall>pr r. map_of (product_map st) pr = Some r \<longrightarrow>
             r < length (transition_relation (product st))
             \<and> (r \<in> set (final_states (product st)) \<longleftrightarrow>
                  nfa_has_final lhs (fst pr) \<and> nfa_has_final rhs (snd pr)))
      \<and> set (pairs_to_process st) \<subseteq> dom (map_of (product_map st)))"

text \<open>A later state of the construction extends an earlier one: the map keeps its
  entries, the product keeps its transitions, pending pairs stay pending, and every new
  key of the map is pending.\<close>

definition extends :: "ProductState \<Rightarrow> ProductState \<Rightarrow> bool" where
  "extends st st' =
     ((\<forall>pr r. map_of (product_map st) pr = Some r \<longrightarrow> map_of (product_map st') pr = Some r)
      \<and> (\<forall>r sy r'. has_transition (product st) r sy r' \<longrightarrow> has_transition (product st') r sy r')
      \<and> set (pairs_to_process st) \<subseteq> set (pairs_to_process st')
      \<and> dom (map_of (product_map st')) \<subseteq>
           dom (map_of (product_map st)) \<union> set (pairs_to_process st'))"

text \<open>The epsilon moves of a pair are in the product: both move lists were in range,
  and when the last entry of the left (right) list carries epsilon, every target of it
  gives a mapped pair and an epsilon transition to its product state.\<close>

definition epsilon_done :: "Symbol \<Rightarrow> Nfa \<Rightarrow> Nfa \<Rightarrow> ProductState \<Rightarrow> StatePair \<Rightarrow> bool" where
  "epsilon_done eps lhs rhs st pr =
     (fst pr < length (transition_relation lhs) \<and> snd pr < length (transition_relation rhs)
      \<and> (transition_relation lhs ! fst pr \<noteq> []
           \<and> symbol (last (transition_relation lhs ! fst pr)) = eps \<longrightarrow>
         (\<forall>p' \<in> set (states_to (last (transition_relation lhs ! fst pr))).
            \<exists>r r'. map_of (product_map st) pr = Some r
                  \<and> map_of (product_map st) (p', snd pr) = Some r'
                  \<and> has_transition (product st) r eps r'))
      \<and> (transition_relation rhs ! snd pr \<noteq> []
           \<and> symbol (last (transition_relation rhs ! snd pr)) = eps \<longrightarrow>
         (\<forall>q' \<in> set (states_to (last (transition_relation rhs ! snd pr))).
            \<exists>r r'. map_of (product_map st) pr = Some r
                  \<and> map_of (product_map st) (fst pr, q') = Some r'
                  \<and> has_transition (product st) r eps r')))"

definition epsilon_inv :: "Symbol \<Rightarrow> Nfa \<Rightarrow> Nfa \<Rightarrow> ProductState \<Rightarrow> bool" where
  "epsilon_inv eps lhs rhs st =
     (\<forall>pr. pr \<in> dom (map_of (product_map st)) \<and> pr \<notin> set (pairs_to_process st) \<longrightarrow>
           epsilon_done eps lhs rhs st pr)"

text \<open>The invariant of an NFA that the construction relies on (section 3 of the spec: all
  referenced states are below the state count), for the initial states and the targets
  of the moves.\<close>

definition nfa_wf :: "Nfa \<Rightarrow> bool" where
  "nfa_wf aut =
     (list_all (\<lambda>s. s < length (transition_relation aut)) (initial_states aut)
      \<and> list_all (list_all (\<lambda>m. list_all (\<lambda>s. s < length (transition_relation aut))
                                   (states_to m)))
          (transition_relation aut))"

text \<open>The pairs of states of the two automata, and what is left to do: the pairs not
  yet mapped and the pairs pending. Every mapped pair is a pair of states, and no pair is
  pending twice.\<close>

definition state_pairs :: "Nfa \<Rightarrow> Nfa \<Rightarrow> StatePair set" where
  "state_pairs lhs rhs =
     {..<length (transition_relation lhs)} \<times> {..<length (transition_relation rhs)}"

definition todo :: "Nfa \<Rightarrow> Nfa \<Rightarrow> ProductState \<Rightarrow> nat" where
  "todo lhs rhs st =
     card (state_pairs lhs rhs - dom (map_of (product_map st))) + length (pairs_to_process st)"

definition bounded_inv :: "Nfa \<Rightarrow> Nfa \<Rightarrow> ProductState \<Rightarrow> bool" where
  "bounded_inv lhs rhs st =
     (dom (map_of (product_map st)) \<subseteq> state_pairs lhs rhs \<and> distinct (pairs_to_process st))"

section \<open>Concrete automata\<close>

text \<open>Three states, state 0 initial, states 1 and 2 final, and the one transition from
  state 0 under symbol 0 to the node \<open>{2}\<close>: first empty, then with the forward entry,
  then with the inverse entry as well.\<close>

definition c1_fresh :: Afa where
  "c1_fresh = \<lparr>transRelation = [[], [], []], inverseTransRelation = [[], [], []],
               initialstates = [0], finalstates = [1, 2]\<rparr>"

definition c1_trans :: Trans where
  "c1_trans = \<lparr>src = 0, symb = 0, dst = [[2]]\<rparr>"

definition c1_forward :: Afa where
  "c1_forward = \<lparr>transRelation = [[\<lparr>src = 0, symb = 0, dst = [[2]]\<rparr>], [], []],
                 inverseTransRelation = [[], [], []],
                 initialstates = [0], finalstates = [1, 2]\<rparr>"

definition c1_aut :: Afa where
  "c1_aut = \<lparr>transRelation = [[\<lparr>src = 0, symb = 0, dst = [[2]]\<rparr>], [], []],
             inverseTransRelation =
               [[], [], [\<lparr>inv_symb = 0, inverseResults =
                           [\<lparr>result_nodes = [0], sharing_list = [2]\<rparr>]\<rparr>]],
             initialstates = [0], finalstates = [1, 2]\<rparr>"

text \<open>Three states, state 1 initial, state 2 final, and the two transitions from
  states 0 and 1 under symbol 0 to the node \<open>{2}\<close>: first empty, then as the four calls
  of \<open>add_trans\<close> and \<open>add_inverse_trans\<close> leave it.\<close>

definition c1_shared_fresh :: Afa where
  "c1_shared_fresh = \<lparr>transRelation = [[], [], []], inverseTransRelation = [[], [], []],
                      initialstates = [1], finalstates = [2]\<rparr>"

definition c1_shared :: Afa where
  "c1_shared = \<lparr>transRelation = [[\<lparr>src = 0, symb = 0, dst = [[2]]\<rparr>],
                                   [\<lparr>src = 1, symb = 0, dst = [[2]]\<rparr>], []],
                inverseTransRelation =
                  [[], [], [\<lparr>inv_symb = 0, inverseResults =
                              [\<lparr>result_nodes = [0], sharing_list = [2]\<rparr>]\<rparr>]],
                initialstates = [1], finalstates = [2]\<rparr>"

text \<open>Three states with the entry \<open>(0, 0, {{1}})\<close> stored at state 0.\<close>

definition c2_aut :: Afa where
  "c2_aut = \<lparr>transRelation = [[\<lparr>src = 0, symb = 0, dst = [[1]]\<rparr>], [], []],
             inverseTransRelation = [[], [], []],
             initialstates = [], finalstates = []\<rparr>"

text \<open>The automaton of the comment in \<open>add_inverse_trans\<close>: two states, the transition
  \<open>(0, a, {{0, 1}})\<close> with its inverse entry kept at state 0.\<close>

definition c3_aut :: Afa where
  "c3_aut = \<lparr>transRelation = [[\<lparr>src = 0, symb = 0, dst = [[0, 1]]\<rparr>], []],
             inverseTransRelation =
               [[\<lparr>inv_symb = 0, inverseResults =
                    [\<lparr>result_nodes = [0], sharing_list = [0, 1]\<rparr>]\<rparr>], []],
             initialstates = [], finalstates = []\<rparr>"

text \<open>One state; first without transitions, then after a transition with the empty
  set of nodes was added, then after \<open>(0, 0, {{0}})\<close> was added once and twice.\<close>

definition c7_fresh :: Afa where
  "c7_fresh = \<lparr>transRelation = [[]], inverseTransRelation = [[]],
               initialstates = [], finalstates = []\<rparr>"

definition c7_aut :: Afa where
  "c7_aut = \<lparr>transRelation = [[\<lparr>src = 0, symb = 0, dst = []\<rparr>]],
             inverseTransRelation = [[]], initialstates = [], finalstates = []\<rparr>"

definition c7_trans :: Trans where
  "c7_trans = \<lparr>src = 0, symb = 0, dst = [[0]]\<rparr>"

definition c7_once :: Afa where
  "c7_once = \<lparr>transRelation = [[\<lparr>src = 0, symb = 0, dst = []\<rparr>,
                                  \<lparr>src = 0, symb = 0, dst = [[0]]\<rparr>]],
              inverseTransRelation = [[]], initialstates = [], finalstates = []\<rparr>"

definition c7_twice :: Afa where
  "c7_twice = \<lparr>transRelation = [[\<lparr>src = 0, symb = 0, dst = []\<rparr>,
                                   \<lparr>src = 0, symb = 0, dst = [[0]]\<rparr>,
                                   \<lparr>src = 0, symb = 0, dst = [[0]]\<rparr>]],
               inverseTransRelation = [[]], initialstates = [], finalstates = []\<rparr>"

text \<open>Two states, the entry \<open>(0, 0, {{1}, {2}})\<close> stored at state 0.\<close>

definition c10_aut :: Afa where
  "c10_aut = \<lparr>transRelation = [[\<lparr>src = 0, symb = 0, dst = [[1], [2]]\<rparr>], [], []],
              inverseTransRelation = [[], [], []], initialstates = [], finalstates = []\<rparr>"

text \<open>Three states; state 0 moves under symbol 0 to \<open>{1}\<close> or \<open>{2}\<close>, state 1 to
  \<open>{2}\<close>.\<close>

definition c6_aut :: Afa where
  "c6_aut = \<lparr>transRelation = [[\<lparr>src = 0, symb = 0, dst = [[1], [2]]\<rparr>],
                              [\<lparr>src = 1, symb = 0, dst = [[2]]\<rparr>], []],
             inverseTransRelation = [[], [], []], initialstates = [], finalstates = []\<rparr>"

text \<open>The third scenario of the spec: the left automaton has states 0 and 1, state 0
  initial, state 1 final and an epsilon move (symbol 100 here) from 0 to 1; the right one
  has the single state 0, initial and final. Then the product and the product map.\<close>

definition c5_lhs :: Nfa where
  "c5_lhs = \<lparr>transition_relation = [[\<lparr>symbol = 100, states_to = [1]\<rparr>], []],
             initial_states = [0], final_states = [1]\<rparr>"

definition c5_rhs :: Nfa where
  "c5_rhs = \<lparr>transition_relation = [[]], initial_states = [0], final_states = [0]\<rparr>"

definition c5_product :: Nfa where
  "c5_product = \<lparr>transition_relation = [[\<lparr>symbol = 100, states_to = [1]\<rparr>], []],
                 initial_states = [0], final_states = [1]\<rparr>"

definition c5_map :: "(StatePair \<times> State) list" where
  "c5_map = [((0, 0), 0), ((1, 0), 1)]"

text \<open>The section that \<open>serialize\<close> returns for the automaton \<open>c1_aut\<close>.\<close>

definition c9_section :: ParsedSection where
  "c9_section = \<lparr>ps_type = ''AFA'',
                 dict = [(''Initial'', [''q0'']), (''Final'', [''q1'', ''q2''])],
                 body = []\<rparr>"

section \<open>Properties of the transition store\<close>

lemma perform_trans_loop_find:
  "perform_trans_loop sy xs =
     (case find (\<lambda>transVec. symb transVec = sy) xs of None \<Rightarrow> [] | Some transVec \<Rightarrow> dst transVec)"
  by (induction xs) auto

lemma perform_trans_loop_append:
  "perform_trans_loop sy (xs @ ys) =
     (if list_ex (\<lambda>transVec. symb transVec = sy) xs then perform_trans_loop sy xs
      else perform_trans_loop sy ys)"
  by (induction xs) auto

lemma perform_trans_loop_empty:
  assumes "perform_trans_loop sy xs = []"
      and "\<not> list_ex (\<lambda>transVec. symb transVec = sy \<and> dst transVec = []) xs"
  shows "\<not> list_ex (\<lambda>transVec. symb transVec = sy) xs"
  using assms by (induction xs) (auto split: if_splits)

text \<open>C10: for a transition \<open>t\<close> whose source is a state of the automaton, \<open>has_trans\<close>
  answers true exactly when the first entry stored for the source and the symbol exists,
  has a non-empty set of nodes, and every stored node occurs in the destination of \<open>t\<close>.
  It is a subset test of the stored set against the given one, not a membership test of
  one node, and it answers false when no entry is stored.\<close>

theorem has_trans_subset_test:
  assumes "src t < length (transRelation aut)"
  shows "has_trans aut t =
           Inr (case find (\<lambda>transVec. symb transVec = symb t) (transRelation aut ! src t) of
                  None \<Rightarrow> False
                | Some transVec \<Rightarrow> dst transVec \<noteq> [] \<and> set (dst transVec) \<subseteq> set (dst t))"
  using assms
  by (simp add: has_trans_def perform_trans_def bindE_def perform_trans_loop_find IsSubsetOf_def
           split: option.splits)

theorem has_trans_subset_test_witness:
  "src \<lparr>src = 0, symb = 0, dst = [[1]]\<rparr> < length (transRelation c10_aut)
   \<and> has_trans c10_aut \<lparr>src = 0, symb = 0, dst = [[1]]\<rparr> = Inr False
   \<and> has_trans c10_aut \<lparr>src = 0, symb = 0, dst = [[1], [2], [3]]\<rparr> = Inr True
   \<and> has_trans c10_aut \<lparr>src = 0, symb = 1, dst = [[1], [2]]\<rparr> = Inr False"
  using has_trans_subset_test [of "\<lparr>src = 0, symb = 0, dst = [[1]]\<rparr>" c10_aut]
        has_trans_subset_test [of "\<lparr>src = 0, symb = 0, dst = [[1], [2], [3]]\<rparr>" c10_aut]
        has_trans_subset_test [of "\<lparr>src = 0, symb = 1, dst = [[1], [2]]\<rparr>" c10_aut]
  by (simp add: c10_aut_def)

lemma perform_trans_loop_absent:
  assumes "\<not> list_ex (\<lambda>transVec. symb transVec = sy) xs"
  shows "perform_trans_loop sy xs = []"
  using assms by (induction xs) auto

lemma add_trans_fresh_entry:
  assumes "src t < length (transRelation aut)"
      and "\<not> list_ex (\<lambda>transVec. symb transVec = symb t) (transRelation aut ! src t)"
  shows "\<exists>once. add_trans aut t = Inr once \<and> perform_trans once (src t) (symb t) = Inr (dst t)"
proof -
  let ?xs = "transRelation aut ! src t"
  have "perform_trans_loop (symb t) ?xs = []"
    using assms(2) by (rule perform_trans_loop_absent)
  then have "add_trans aut t =
               Inr (aut\<lparr>transRelation := (transRelation aut)[src t := ?xs @ [t]]\<rparr>)"
    using assms(1) by (simp add: add_trans_def perform_trans_def bindE_def)
  moreover have "perform_trans_loop (symb t) (?xs @ [t]) = dst t"
    using assms(2) by (simp add: perform_trans_loop_append)
  ultimately show ?thesis
    using assms(1) by (simp add: perform_trans_def)
qed

text \<open>C2: the round trip fails when an entry is already stored. With \<open>{{1}}\<close> stored for
  state 0 and symbol 0, adding the node \<open>{2}\<close> leaves the automaton as it was, the lookup
  still returns \<open>{{1}}\<close>, and the upward closure of \<open>{{1}}\<close> does not contain \<open>{2}\<close>.\<close>

theorem add_trans_existing_entry_kept:
  "add_trans c2_aut \<lparr>src = 0, symb = 0, dst = [[2]]\<rparr> = Inr c2_aut
   \<and> perform_trans c2_aut 0 0 = Inr [[1]]
   \<and> \<not> cs_contains (cs_of_nodes upward_closed_set 0 2 [[1]]) [2]"
  by code_simp

text \<open>C3: the source state is not added to an inverse result that already carries the
  sharing list. With the result \<open>({0}, {0, 1})\<close> stored at state 0 for symbol 0, adding
  the inverse of \<open>(1, 0, {{0, 1}})\<close> leaves the automaton as it was, and the lookup at
  state 0 returns the result without state 1.\<close>

theorem add_inverse_trans_shared_node_kept:
  "add_inverse_trans c3_aut \<lparr>src = 1, symb = 0, dst = [[0, 1]]\<rparr> = Inr c3_aut
   \<and> perform_inverse_trans c3_aut 0 0 = Inr [\<lparr>result_nodes = [0], sharing_list = [0, 1]\<rparr>]
   \<and> 1 \<notin> set (result_nodes \<lparr>result_nodes = [0], sharing_list = [0, 1]\<rparr>)"
  by code_simp


text \<open>When the list of the source state holds an entry for the symbol with an empty set
  of nodes, the lookup reports nothing and every call pushes one more entry: the second
  call leaves the same entries, one of them twice.\<close>

lemma add_trans_twice_repeated_entry:
  "add_trans c7_fresh \<lparr>src = 0, symb = 0, dst = []\<rparr> = Inr c7_aut
   \<and> add_trans c7_aut c7_trans = Inr c7_once
   \<and> add_trans c7_once c7_trans = Inr c7_twice
   \<and> transRelation c7_once \<noteq> transRelation c7_twice"
  by code_simp

text \<open>When no such entry is stored, the second call returns the automaton of the first
  call as it is.\<close>

lemma add_trans_idempotent:
  assumes "src t < length (transRelation aut)"
      and "dst t = [A]"
      and "\<not> list_ex (\<lambda>transVec. symb transVec = symb t \<and> dst transVec = [])
               (transRelation aut ! src t)"
  shows "\<exists>once. add_trans aut t = Inr once \<and> add_trans once t = Inr once"
proof (cases "perform_trans_loop (symb t) (transRelation aut ! src t) = []")
  case False
  then have "add_trans aut t = Inr aut"
    using assms(1) by (simp add: add_trans_def perform_trans_def bindE_def Let_def)
  then show ?thesis by simp
next
  case True
  let ?xs = "transRelation aut ! src t"
  let ?once = "aut\<lparr>transRelation := (transRelation aut)[src t := ?xs @ [t]]\<rparr>"
  have absent: "\<not> list_ex (\<lambda>transVec. symb transVec = symb t) ?xs"
    using perform_trans_loop_empty [OF True assms(3)] .
  have first: "add_trans aut t = Inr ?once"
    using assms(1) True by (simp add: add_trans_def perform_trans_def bindE_def)
  have "perform_trans_loop (symb t) (?xs @ [t]) = [A]"
    using absent assms(2) by (simp add: perform_trans_loop_append)
  then have "add_trans ?once t = Inr ?once"
    using assms(1) by (simp add: add_trans_def perform_trans_def bindE_def Let_def)
  with first show ?thesis by simp
qed




text \<open>C8: the forward lookup and \<open>post\<close> of a state stop at the assertion for state 5 of
  a one-state automaton, but the inverse lookup has no such check: it reads
  \<open>inverseTransRelation[5]\<close> outside the vector, and so do the two \<open>pre\<close> operators
  that go through it.\<close>

theorem inverse_lookup_unchecked:
  "perform_trans c7_fresh 5 0 = Inl AssertionFailed
   \<and> post_state c7_fresh 5 0 = Inl AssertionFailed
   \<and> perform_inverse_trans c7_fresh 5 0 = Inl UndefinedBehaviour
   \<and> pre_node_symb c7_fresh [5] 0 = Inl UndefinedBehaviour
   \<and> pre_node c7_fresh [5] = Inl UndefinedBehaviour"
  by code_simp

section \<open>The emptiness tests\<close>

text \<open>C1: the four tests do not agree. On the automaton built by \<open>add_trans\<close> and
  \<open>add_inverse_trans\<close> from the transition \<open>(0, 0, {{2}})\<close>, with state 0 initial and
  states 1 and 2 final, both forward tests answer false (not empty: state 2 is final and
  reached from state 0) and both backward tests answer true (empty). The same happens on
  the automaton built from the transitions \<open>(0, 0, {{2}})\<close> and \<open>(1, 0, {{2}})\<close> with state
  1 initial and state 2 final.\<close>

theorem emptiness_tests_disagree:
  "add_trans c1_fresh c1_trans = Inr c1_forward
   \<and> add_inverse_trans c1_forward c1_trans = Inr c1_aut
   \<and> antichain_concrete_forward_emptiness_test_old 5 c1_aut = Some (Inr False)
   \<and> antichain_concrete_forward_emptiness_test_new 5 c1_aut = Some (Inr False)
   \<and> antichain_concrete_backward_emptiness_test_old 5 c1_aut = Some (Inr True)
   \<and> antichain_concrete_backward_emptiness_test_new 5 c1_aut = Some (Inr True)
   \<and> bindE (add_trans c1_shared_fresh c1_trans) (\<lambda>a.
       bindE (add_inverse_trans a c1_trans) (\<lambda>a.
       bindE (add_trans a \<lparr>src = 1, symb = 0, dst = [[2]]\<rparr>) (\<lambda>a.
       add_inverse_trans a \<lparr>src = 1, symb = 0, dst = [[2]]\<rparr>))) = Inr c1_shared
   \<and> antichain_concrete_forward_emptiness_test_old 5 c1_shared = Some (Inr False)
   \<and> antichain_concrete_forward_emptiness_test_new 5 c1_shared = Some (Inr False)
   \<and> antichain_concrete_backward_emptiness_test_old 5 c1_shared = Some (Inr True)
   \<and> antichain_concrete_backward_emptiness_test_new 5 c1_shared = Some (Inr True)"
  by code_simp

section \<open>Closed sets and the post operator\<close>

lemma set_ord_insert: "set (ord_insert x xs) = insert x (set xs)"
  by (induction xs) auto

lemma set_ord_union: "set (ord_union xs ys) = set xs \<union> set ys"
  by (induction xs ys rule: ord_union.induct) auto

lemma cs_type_insert: "cs_type (cs_insert N cs) = cs_type cs"
  by (simp add: cs_insert_def split: ClosedSetType.splits)

lemma cs_type_insert_nodes: "cs_type (cs_insert_nodes Ns cs) = cs_type cs"
  by (induction Ns arbitrary: cs) (simp_all add: cs_type_insert)

lemma contains_insert_upward:
  assumes "cs_type cs = upward_closed_set"
  shows "cs_contains (cs_insert N cs) M \<longleftrightarrow> cs_contains cs M \<or> set N \<subseteq> set M"
proof (cases "list_ex (\<lambda>A. IsSubsetOf A N) (antichain cs)")
  case True
  then obtain A where "A \<in> set (antichain cs)" "set A \<subseteq> set N"
    by (auto simp: list_ex_iff IsSubsetOf_def)
  then have "set N \<subseteq> set M \<Longrightarrow> cs_contains cs M"
    using assms by (auto simp: cs_contains_def list_ex_iff IsSubsetOf_def)
  with True assms show ?thesis by (auto simp: cs_insert_def)
next
  case False
  with assms show ?thesis
    by (auto simp: cs_insert_def cs_contains_def list_ex_iff IsSubsetOf_def set_ord_insert)
qed

lemma contains_insert_nodes_upward:
  assumes "cs_type cs = upward_closed_set"
  shows "cs_contains (cs_insert_nodes Ns cs) M \<longleftrightarrow>
           cs_contains cs M \<or> (\<exists>N \<in> set Ns. set N \<subseteq> set M)"
  using assms
proof (induction Ns arbitrary: cs)
  case Nil
  then show ?case by simp
next
  case (Cons N Ns)
  have "cs_type (cs_insert N cs) = upward_closed_set"
    using Cons.prems by (simp add: cs_type_insert)
  from Cons.IH [OF this] show ?case
    using Cons.prems by (auto simp: contains_insert_upward)
qed

lemma contains_empty: "\<not> cs_contains (cs_empty t lo hi) M"
  by (simp add: cs_contains_def cs_empty_def split: ClosedSetType.splits)

lemma contains_upward:
  "cs_type cs = upward_closed_set \<Longrightarrow>
     cs_contains cs M \<longleftrightarrow> (\<exists>A \<in> set (antichain cs). set A \<subseteq> set M)"
  by (simp add: cs_contains_def list_ex_iff IsSubsetOf_def)

lemma contains_intersection_upward:
  assumes "cs_type a = upward_closed_set" and "cs_type b = upward_closed_set"
  shows "cs_contains (cs_intersection a b) M \<longleftrightarrow> cs_contains a M \<and> cs_contains b M"
proof -
  have "cs_contains (cs_intersection a b) M \<longleftrightarrow>
          (\<exists>A \<in> set (antichain a). \<exists>B \<in> set (antichain b). set (ord_union A B) \<subseteq> set M)"
    using assms(1)
    by (auto simp: cs_intersection_def contains_insert_nodes_upward cs_empty_def
                   contains_empty [unfolded cs_empty_def] node_combine_def)
  then show ?thesis
    using assms by (auto simp: contains_upward set_ord_union)
qed

lemma cs_type_intersection: "cs_type (cs_intersection a b) = cs_type a"
  by (simp add: cs_intersection_def cs_type_insert_nodes cs_empty_def)

lemma post_state_defined:
  assumes "s < length (transRelation aut)"
  shows "\<exists>P. post_state aut s sy = Inr P \<and> cs_type P = upward_closed_set"
  using assms
  by (simp add: post_state_def perform_trans_def bindE_def cs_of_nodes_def
                cs_type_insert_nodes cs_empty_def)

lemma post_node_symb_loop_used:
  assumes "\<forall>s \<in> set xs. s < length (transRelation aut)"
      and "cs_type result = upward_closed_set"
  shows "\<exists>R. post_node_symb_loop aut sy xs True result = Inr R
            \<and> cs_type R = upward_closed_set
            \<and> (\<forall>M. cs_contains R M \<longleftrightarrow>
                     cs_contains result M
                     \<and> (\<forall>s \<in> set xs. \<exists>P. post_state aut s sy = Inr P \<and> cs_contains P M))"
  using assms
proof (induction xs arbitrary: result)
  case Nil
  then show ?case by simp
next
  case (Cons s xs)
  from Cons.prems(1) obtain P where P: "post_state aut s sy = Inr P"
      "cs_type P = upward_closed_set"
    using post_state_defined [of s aut sy] by auto
  have ty: "cs_type (cs_intersection result P) = upward_closed_set"
    using Cons.prems(2) by (simp add: cs_type_intersection)
  from Cons.prems(1) have rest: "\<forall>s \<in> set xs. s < length (transRelation aut)" by simp
  from Cons.IH [OF rest ty] obtain R where R:
    "post_node_symb_loop aut sy xs True (cs_intersection result P) = Inr R"
    "cs_type R = upward_closed_set"
    "\<forall>M. cs_contains R M \<longleftrightarrow>
           cs_contains (cs_intersection result P) M
           \<and> (\<forall>s \<in> set xs. \<exists>P. post_state aut s sy = Inr P \<and> cs_contains P M)"
    by blast
  have "post_node_symb_loop aut sy (s # xs) True result = Inr R"
    using P(1) R(1) by (simp add: bindE_def)
  moreover have "\<forall>M. cs_contains R M \<longleftrightarrow>
           cs_contains result M
           \<and> (\<forall>s' \<in> set (s # xs). \<exists>P. post_state aut s' sy = Inr P \<and> cs_contains P M)"
    using R(3) P contains_intersection_upward [OF Cons.prems(2) P(2)] by auto
  ultimately show ?case using R(2) by blast
qed

text \<open>C6: for a node \<open>N\<close> whose states are states of the automaton, \<open>post(N, symb)\<close>
  returns an upward closed set that contains a node exactly when \<open>post(s, symb)\<close> contains
  it for every state \<open>s\<close> of \<open>N\<close>, which is the intersection of these sets; for the
  empty node its antichain is the empty node alone, and it contains every node.\<close>

theorem post_node_symb_intersection:
  assumes "\<forall>s \<in> set N. s < length (transRelation aut)"
  shows "\<exists>R. post_node_symb aut N sy = Inr R
            \<and> cs_type R = upward_closed_set
            \<and> (\<forall>M. cs_contains R M \<longleftrightarrow>
                     (\<forall>s \<in> set N. \<exists>P. post_state aut s sy = Inr P \<and> cs_contains P M))
            \<and> (N = [] \<longrightarrow> antichain R = [[]] \<and> (\<forall>M. cs_contains R M))"
proof (cases N)
  case Nil
  have "\<forall>M. cs_contains (cs_insert [] (cs_empty upward_closed_set 0 (size_minus_one aut))) M"
    by (simp add: cs_insert_def cs_empty_def cs_contains_def IsSubsetOf_def)
  then show ?thesis
    using Nil by (simp add: post_node_symb_def cs_insert_def cs_empty_def)
next
  case (Cons s xs)
  let ?empty = "cs_empty upward_closed_set 0 (size_minus_one aut)"
  from assms Cons obtain P where P: "post_state aut s sy = Inr P"
      "cs_type P = upward_closed_set"
    using post_state_defined [of s aut sy] by auto
  let ?first = "cs_insert_nodes (antichain P) ?empty"
  have ty: "cs_type ?first = upward_closed_set"
    by (simp add: cs_type_insert_nodes cs_empty_def)
  have first: "\<forall>M. cs_contains ?first M \<longleftrightarrow> cs_contains P M"
    using P(2)
    by (simp add: contains_insert_nodes_upward cs_empty_def contains_empty [unfolded cs_empty_def]
                  contains_upward)
  from assms Cons have rest: "\<forall>s \<in> set xs. s < length (transRelation aut)" by simp
  from post_node_symb_loop_used [OF rest ty, of sy] obtain R where R:
    "post_node_symb_loop aut sy xs True ?first = Inr R"
    "cs_type R = upward_closed_set"
    "\<forall>M. cs_contains R M \<longleftrightarrow>
           cs_contains ?first M
           \<and> (\<forall>s \<in> set xs. \<exists>P. post_state aut s sy = Inr P \<and> cs_contains P M)"
    by blast
  have "post_node_symb aut N sy = Inr R"
    using Cons P(1) R(1) by (simp add: post_node_symb_def bindE_def)
  moreover have "\<forall>M. cs_contains R M \<longleftrightarrow>
           (\<forall>s' \<in> set N. \<exists>P. post_state aut s' sy = Inr P \<and> cs_contains P M)"
    using R(3) first P(1) Cons by auto
  ultimately show ?thesis using R(2) Cons by blast
qed

theorem post_node_symb_intersection_witness:
  "0 < length (transRelation c6_aut) \<and> 1 < length (transRelation c6_aut)
   \<and> (\<exists>R. post_node_symb c6_aut [0, 1] 0 = Inr R
          \<and> cs_type R = upward_closed_set
          \<and> cs_contains R [2] \<and> \<not> cs_contains R [1])"
proof -
  have states: "\<forall>s \<in> set [0, 1]. s < length (transRelation c6_aut)"
    by (simp add: c6_aut_def)
  from post_node_symb_intersection [OF states, of 0] obtain R where R:
    "post_node_symb c6_aut [0, 1] 0 = Inr R" "cs_type R = upward_closed_set"
    "\<forall>M. cs_contains R M \<longleftrightarrow>
           (\<forall>s \<in> set [0, 1]. \<exists>P. post_state c6_aut s 0 = Inr P \<and> cs_contains P M)"
    by blast
  have p0: "post_state c6_aut 0 0 =
              Inr \<lparr>cs_type = upward_closed_set, min_val = 0, max_val = 2, antichain = [[1], [2]]\<rparr>"
    by code_simp
  have p1: "post_state c6_aut 1 0 =
              Inr \<lparr>cs_type = upward_closed_set, min_val = 0, max_val = 2, antichain = [[2]]\<rparr>"
    by code_simp
  have yes: "cs_contains R [2]"
    using R(3) p0 p1 by (simp add: cs_contains_def IsSubsetOf_def)
  have no: "\<not> cs_contains R [1]"
    using R(3) p0 p1 by (simp add: cs_contains_def IsSubsetOf_def)
  from states R(1,2) yes no show ?thesis by simp
qed

section \<open>Serialization\<close>

lemma name_states_fails:
  "(\<exists>e. name_states namer xs names = Inl e) \<longleftrightarrow> list_ex (\<lambda>s. \<not> fst (namer s)) xs"
  by (induction xs arbitrary: names) auto

lemma serialize_fails:
  "(\<exists>e. serialize aut symbol_map state_map = Inl e) \<longleftrightarrow>
     list_ex (\<lambda>s. \<not> fst (state_namer state_map s)) (initialstates aut @ finalstates aut)"
proof (cases "name_states (state_namer state_map) (initialstates aut) []")
  case (Inl e)
  then show ?thesis
    using name_states_fails [of "state_namer state_map" "initialstates aut" "[]"]
    by (auto simp: serialize_def bindE_def)
next
  case (Inr init_states)
  then show ?thesis
    using name_states_fails [of "state_namer state_map" "initialstates aut" "[]"]
          name_states_fails [of "state_namer state_map" "finalstates aut" "[]"]
    by (auto simp: serialize_def bindE_def Let_def split: sum.splits)
qed

text \<open>C9: the section that \<open>serialize\<close> returns has no transitions. The automaton
  \<open>c1_aut\<close> has the transition \<open>(0, 0, {{2}})\<close>; its section has the type tag and the two
  lists of state names, and an empty body. With a symbol map that names no symbol the
  call returns the same section instead of failing: the symbols are never looked up.\<close>

theorem serialize_without_transitions:
  "transRelation c1_aut = [[c1_trans], [], []]
   \<and> serialize c1_aut None None = Inr c9_section
   \<and> serialize c1_aut (Some []) None = Inr c9_section
   \<and> body c9_section = []"
  by code_simp

section \<open>Finality in the product\<close>

lemma set_pairs_insert: "set (pairs_insert pr ps) = insert pr (set ps)"
  by (auto simp: pairs_insert_def)

lemma final_inv_create:
  assumes "final_inv lhs rhs (fst acc)"
  shows "final_inv lhs rhs (fst (create_product_state_and_trans lhs rhs pr acc))"
proof (cases "map_of (product_map (fst acc)) pr")
  case (Some r)
  then show ?thesis using assms by (simp add: create_product_state_and_trans_def Let_def)
next
  case None
  let ?n = "length (transition_relation (product (fst acc)))"
  have fresh: "?n \<notin> set (final_states (product (fst acc)))"
    using assms by (auto simp: final_inv_def)
  have old: "\<And>pr' r. map_of (product_map (fst acc)) pr' = Some r \<Longrightarrow> r < ?n"
    using assms by (auto simp: final_inv_def)
  show ?thesis
    using None assms fresh
    unfolding final_inv_def create_product_state_and_trans_def
    by (auto simp: Let_def nfa_add_state_def nfa_add_final_def set_ord_insert
          set_pairs_insert update_conv' less_Suc_eq dest: old)
qed

lemma map_create:
  assumes "map_of (product_map (fst acc)) pr' = Some r"
  shows "map_of (product_map (fst (create_product_state_and_trans lhs rhs pr acc))) pr' = Some r"
  using assms
  by (cases "map_of (product_map (fst acc)) pr")
     (auto simp: create_product_state_and_trans_def Let_def update_conv')

lemma final_inv_fold_create:
  assumes "final_inv lhs rhs (fst acc)"
  shows "final_inv lhs rhs (fst (fold (create_product_state_and_trans lhs rhs) targets acc))"
  using assms by (induction targets arbitrary: acc) (simp_all add: final_inv_create)

lemma map_fold_create:
  assumes "map_of (product_map (fst acc)) pr' = Some r"
  shows "map_of (product_map (fst (fold (create_product_state_and_trans lhs rhs) targets acc))) pr'
           = Some r"
  using assms by (induction targets arbitrary: acc) (simp_all add: map_create)

lemma final_inv_add_product_transition:
  assumes "final_inv lhs rhs st"
      and "map_of (product_map st) pr = Some r"
      and "add_product_transition st pr it = Inr st'"
  shows "final_inv lhs rhs st' \<and> product_map st' = product_map st"
  using assms
  by (auto simp: add_product_transition_def final_inv_def Let_def split: if_splits)

lemma final_inv_product_move:
  assumes "final_inv lhs rhs st"
      and "map_of (product_map st) pr = Some r"
      and "product_move lhs rhs pr sy targets st = Inr st'"
  shows "final_inv lhs rhs st' \<and> map_of (product_map st') pr = Some r"
proof -
  let ?acc = "fold (create_product_state_and_trans lhs rhs) targets
                (st, \<lparr>symbol = sy, states_to = []\<rparr>)"
  have inv: "final_inv lhs rhs (fst ?acc)"
    using assms(1) by (simp add: final_inv_fold_create)
  have mp: "map_of (product_map (fst ?acc)) pr = Some r"
    using assms(2) by (simp add: map_fold_create)
  have "add_product_transition (fst ?acc) pr (snd ?acc) = Inr st'"
    using assms(3) by (simp add: product_move_def Let_def)
  from final_inv_add_product_transition [OF inv mp this] mp show ?thesis by simp
qed

lemma final_inv_sync_loop:
  assumes "final_inv lhs rhs st"
      and "map_of (product_map st) pr = Some r"
      and "sync_loop lhs rhs pr groups st = Inr st'"
  shows "final_inv lhs rhs st' \<and> map_of (product_map st') pr = Some r"
  using assms
proof (induction groups arbitrary: st)
  case Nil
  then show ?case by simp
next
  case (Cons moves rest)
  from Cons.prems(3) obtain st1 where
    mv: "product_move lhs rhs pr (symbol (fst moves))
           (List.product (states_to (fst moves)) (states_to (snd moves))) st = Inr st1"
    and lp: "sync_loop lhs rhs pr rest st1 = Inr st'"
    by (auto simp: bindE_def split: sum.splits)
  from final_inv_product_move [OF Cons.prems(1,2) mv]
  have "final_inv lhs rhs st1" "map_of (product_map st1) pr = Some r" by simp_all
  from Cons.IH [OF this lp] show ?case .
qed

lemma final_inv_lhs_epsilon:
  assumes "final_inv lhs rhs st"
      and "map_of (product_map st) pr = Some r"
      and "lhs_epsilon eps lhs rhs pr st = Inr st'"
  shows "final_inv lhs rhs st' \<and> map_of (product_map st') pr = Some r"
  using assms final_inv_product_move [OF assms(1,2)]
  by (auto simp: lhs_epsilon_def Let_def split: if_splits)

lemma final_inv_rhs_epsilon:
  assumes "final_inv lhs rhs st"
      and "map_of (product_map st) pr = Some r"
      and "rhs_epsilon eps lhs rhs pr st = Inr st'"
  shows "final_inv lhs rhs st' \<and> map_of (product_map st') pr = Some r"
  using assms final_inv_product_move [OF assms(1,2)]
  by (auto simp: rhs_epsilon_def Let_def split: if_splits)

lemma final_inv_process_pair:
  assumes "final_inv lhs rhs st"
      and "map_of (product_map st) pr = Some r"
      and "process_pair eps lhs rhs preserve_epsilon pr st = Inr st'"
  shows "final_inv lhs rhs st'"
proof -
  from assms(3) obtain st1 where
    sl: "sync_loop lhs rhs pr
           (sync_moves (transition_relation lhs ! fst pr) (transition_relation rhs ! snd pr)) st
         = Inr st1"
    and rest: "(if preserve_epsilon
                then bindE (lhs_epsilon eps lhs rhs pr st1) (rhs_epsilon eps lhs rhs pr)
                else Inr st1) = Inr st'"
    by (auto simp: process_pair_def bindE_def split: if_splits sum.splits)
  from final_inv_sync_loop [OF assms(1,2) sl]
  have one: "final_inv lhs rhs st1" "map_of (product_map st1) pr = Some r" by simp_all
  show ?thesis
  proof (cases preserve_epsilon)
    case False
    with rest one show ?thesis by simp
  next
    case True
    with rest obtain st2 where
      le: "lhs_epsilon eps lhs rhs pr st1 = Inr st2"
      and re: "rhs_epsilon eps lhs rhs pr st2 = Inr st'"
      by (auto simp: bindE_def split: sum.splits)
    from final_inv_lhs_epsilon [OF one le]
    have "final_inv lhs rhs st2" "map_of (product_map st2) pr = Some r" by simp_all
    from final_inv_rhs_epsilon [OF this re] show ?thesis by simp
  qed
qed

lemma final_inv_loop:
  assumes "final_inv lhs rhs st"
      and "intersection_loop pick fuel eps lhs rhs preserve_epsilon st = Some (Inr st')"
  shows "final_inv lhs rhs st' \<and> pairs_to_process st' = []"
  using assms
proof (induction fuel arbitrary: st)
  case 0
  then show ?case by simp
next
  case (Suc fuel)
  show ?case
  proof (cases "pairs_to_process st = []")
    case True
    with Suc.prems show ?thesis by simp
  next
    case False
    let ?ps = "pairs_to_process st"
    let ?pr = "?ps ! (pick fuel ?ps mod length ?ps)"
    let ?st0 = "st\<lparr>pairs_to_process := removeAll ?pr ?ps\<rparr>"
    have "?pr \<in> set ?ps" using False by simp
    then obtain r where r: "map_of (product_map st) ?pr = Some r"
      using Suc.prems(1) by (auto simp: final_inv_def)
    have inv0: "final_inv lhs rhs ?st0"
      using Suc.prems(1) by (auto simp: final_inv_def)
    from Suc.prems(2) False obtain st1 where
      pp: "process_pair eps lhs rhs preserve_epsilon ?pr ?st0 = Inr st1"
      and lp: "intersection_loop pick fuel eps lhs rhs preserve_epsilon st1 = Some (Inr st')"
      by (auto simp: Let_def split: sum.splits)
    have "map_of (product_map ?st0) ?pr = Some r" using r by simp
    from final_inv_process_pair [OF inv0 this pp] have "final_inv lhs rhs st1" .
    from Suc.IH [OF this lp] show ?thesis .
  qed
qed

lemma final_inv_init_pair:
  assumes "final_inv lhs rhs st"
  shows "final_inv lhs rhs (init_pair lhs rhs pr st)"
proof -
  let ?n = "length (transition_relation (product st))"
  have fresh: "?n \<notin> set (final_states (product st))"
    using assms by (auto simp: final_inv_def)
  have old: "\<And>pr' r. map_of (product_map st) pr' = Some r \<Longrightarrow> r < ?n"
    using assms by (auto simp: final_inv_def)
  show ?thesis
    using assms fresh
    unfolding final_inv_def init_pair_def
    by (auto simp: Let_def nfa_add_state_def set_pairs_insert update_conv' less_Suc_eq
             dest: old)
qed

lemma final_inv_fold_init:
  assumes "final_inv lhs rhs st"
  shows "final_inv lhs rhs (fold (init_pair lhs rhs) prs st)"
  using assms by (induction prs arbitrary: st) (simp_all add: final_inv_init_pair)

lemma final_inv_init_product: "final_inv lhs rhs (init_product lhs rhs)"
  unfolding init_product_def
  by (rule final_inv_fold_init) (simp add: final_inv_def)

lemma intersection_result:
  assumes "intersection pick fuel eps lhs rhs preserve_epsilon = Some (Inr (aut, pmap))"
  obtains st where
    "intersection_loop pick fuel eps lhs rhs preserve_epsilon (init_product lhs rhs)
       = Some (Inr st)"
    "product st = aut" "product_map st = pmap"
  using assms
  by (cases "intersection_loop pick fuel eps lhs rhs preserve_epsilon (init_product lhs rhs)";
      cases "the (intersection_loop pick fuel eps lhs rhs preserve_epsilon (init_product lhs rhs))")
     (auto simp: intersection_def)

lemma product_state_final_partial:
  assumes "intersection pick fuel eps lhs rhs preserve_epsilon = Some (Inr (aut, pmap))"
      and "map_of pmap (p, q) = Some r"
  shows "r \<in> set (final_states aut) \<longleftrightarrow> nfa_has_final lhs p \<and> nfa_has_final rhs q"
proof -
  from assms(1) obtain st where st:
    "intersection_loop pick fuel eps lhs rhs preserve_epsilon (init_product lhs rhs)
       = Some (Inr st)"
    "product st = aut" "product_map st = pmap"
    by (rule intersection_result)
  from final_inv_loop [OF final_inv_init_product st(1)] have "final_inv lhs rhs st" by simp
  with assms(2) st(2,3) show ?thesis by (auto simp: final_inv_def)
qed

section \<open>The product is produced\<close>

lemma finite_state_pairs: "finite (state_pairs lhs rhs)"
  by (simp add: state_pairs_def)

lemma nfa_wf_target:
  assumes "nfa_wf aut" and "p < length (transition_relation aut)"
      and "m \<in> set (transition_relation aut ! p)" and "s \<in> set (states_to m)"
  shows "s < length (transition_relation aut)"
proof -
  from assms(1,2) have
    "list_all (\<lambda>m. list_all (\<lambda>s. s < length (transition_relation aut)) (states_to m))
       (transition_relation aut ! p)"
    by (simp add: nfa_wf_def list_all_length)
  with assms(3,4) show ?thesis by (auto simp: list_all_iff)
qed

lemma bounded_create:
  assumes "bounded_inv lhs rhs (fst acc)" and "pr \<in> state_pairs lhs rhs"
  shows "bounded_inv lhs rhs (fst (create_product_state_and_trans lhs rhs pr acc))
         \<and> todo lhs rhs (fst (create_product_state_and_trans lhs rhs pr acc))
             \<le> todo lhs rhs (fst acc)"
proof (cases "map_of (product_map (fst acc)) pr")
  case (Some r)
  then show ?thesis using assms by (simp add: create_product_state_and_trans_def Let_def)
next
  case None
  let ?U = "state_pairs lhs rhs"
  let ?D = "dom (map_of (product_map (fst acc)))"
  let ?st' = "fst (create_product_state_and_trans lhs rhs pr acc)"
  have dom': "dom (map_of (product_map ?st')) = insert pr ?D"
    using None by (simp add: create_product_state_and_trans_def Let_def update_conv')
  have pend': "pairs_to_process ?st' = pairs_insert pr (pairs_to_process (fst acc))"
    using None by (simp add: create_product_state_and_trans_def Let_def)
  have in_rest: "pr \<in> ?U - ?D" using None assms(2) by (auto simp: dom_def)
  have fin: "finite (?U - ?D)" using finite_state_pairs by simp
  have "?U - insert pr ?D = (?U - ?D) - {pr}" by auto
  then have "card (?U - insert pr ?D) = card (?U - ?D) - 1"
    using in_rest fin by simp
  moreover have "0 < card (?U - ?D)"
    using in_rest fin by (auto simp: card_gt_0_iff)
  moreover have "length (pairs_insert pr (pairs_to_process (fst acc)))
                   \<le> Suc (length (pairs_to_process (fst acc)))"
    by (simp add: pairs_insert_def)
  ultimately have "todo lhs rhs ?st' \<le> todo lhs rhs (fst acc)"
    unfolding todo_def dom' pend' by linarith
  moreover have "bounded_inv lhs rhs ?st'"
    using assms unfolding bounded_inv_def dom' pend' by (auto simp: pairs_insert_def)
  ultimately show ?thesis by simp
qed

lemma bounded_fold_create:
  assumes "bounded_inv lhs rhs (fst acc)" and "set targets \<subseteq> state_pairs lhs rhs"
  shows "bounded_inv lhs rhs (fst (fold (create_product_state_and_trans lhs rhs) targets acc))
         \<and> todo lhs rhs (fst (fold (create_product_state_and_trans lhs rhs) targets acc))
             \<le> todo lhs rhs (fst acc)"
  using assms
proof (induction targets arbitrary: acc)
  case Nil
  then show ?case by simp
next
  case (Cons t targets)
  from Cons.prems have t: "t \<in> state_pairs lhs rhs"
    and rest: "set targets \<subseteq> state_pairs lhs rhs" by simp_all
  from bounded_create [OF Cons.prems(1) t]
  have one: "bounded_inv lhs rhs (fst (create_product_state_and_trans lhs rhs t acc))"
    and le: "todo lhs rhs (fst (create_product_state_and_trans lhs rhs t acc))
               \<le> todo lhs rhs (fst acc)"
    by simp_all
  from Cons.IH [OF one rest] le show ?case by simp
qed

lemma add_product_transition_total:
  assumes "final_inv lhs rhs st" and "map_of (product_map st) pr = Some r"
  shows "\<exists>st'. add_product_transition st pr it = Inr st'
              \<and> product_map st' = product_map st
              \<and> pairs_to_process st' = pairs_to_process st"
proof -
  from assms have "r < length (transition_relation (product st))"
    unfolding final_inv_def by blast
  with assms(2) show ?thesis
    by (simp add: add_product_transition_def Let_def)
qed

lemma product_move_total:
  assumes "final_inv lhs rhs st" and "bounded_inv lhs rhs st"
      and "map_of (product_map st) pr = Some r"
      and "set targets \<subseteq> state_pairs lhs rhs"
  shows "\<exists>st'. product_move lhs rhs pr sy targets st = Inr st'
              \<and> bounded_inv lhs rhs st' \<and> todo lhs rhs st' \<le> todo lhs rhs st"
proof -
  let ?acc = "fold (create_product_state_and_trans lhs rhs) targets
                (st, \<lparr>symbol = sy, states_to = []\<rparr>)"
  have inv: "final_inv lhs rhs (fst ?acc)"
    using assms(1) by (simp add: final_inv_fold_create)
  have mp: "map_of (product_map (fst ?acc)) pr = Some r"
    using assms(3) by (simp add: map_fold_create)
  have bd: "bounded_inv lhs rhs (fst ?acc)" "todo lhs rhs (fst ?acc) \<le> todo lhs rhs st"
    using bounded_fold_create [of lhs rhs "(st, \<lparr>symbol = sy, states_to = []\<rparr>)" targets]
          assms(2,4)
    by simp_all
  from add_product_transition_total [OF inv mp, of "snd ?acc"] obtain st' where st':
    "add_product_transition (fst ?acc) pr (snd ?acc) = Inr st'"
    "product_map st' = product_map (fst ?acc)"
    "pairs_to_process st' = pairs_to_process (fst ?acc)"
    by blast
  have "product_move lhs rhs pr sy targets st = Inr st'"
    using st'(1) by (simp add: product_move_def Let_def)
  moreover have "bounded_inv lhs rhs st'"
    using bd(1) st'(2,3) by (simp add: bounded_inv_def)
  moreover have "todo lhs rhs st' \<le> todo lhs rhs st"
    using bd(2) st'(2,3) by (simp add: todo_def)
  ultimately show ?thesis by blast
qed

lemma sync_moves_subset:
  assumes "g \<in> set (sync_moves ms1 ms2)"
  shows "fst g \<in> set ms1 \<and> snd g \<in> set ms2"
  using assms by (induction ms1 ms2 rule: sync_moves.induct) (auto split: if_splits)

lemma sync_loop_total:
  assumes "final_inv lhs rhs st" and "bounded_inv lhs rhs st"
      and "map_of (product_map st) pr = Some r"
      and "\<forall>g \<in> set groups.
             set (states_to (fst g)) \<times> set (states_to (snd g)) \<subseteq> state_pairs lhs rhs"
  shows "\<exists>st'. sync_loop lhs rhs pr groups st = Inr st'
              \<and> bounded_inv lhs rhs st' \<and> todo lhs rhs st' \<le> todo lhs rhs st"
  using assms
proof (induction groups arbitrary: st)
  case Nil
  then show ?case by simp
next
  case (Cons g rest)
  have "set (List.product (states_to (fst g)) (states_to (snd g))) \<subseteq> state_pairs lhs rhs"
    using Cons.prems(4) by simp
  from product_move_total [OF Cons.prems(1,2,3) this, of "symbol (fst g)"] obtain st1 where
    mv: "product_move lhs rhs pr (symbol (fst g))
           (List.product (states_to (fst g)) (states_to (snd g))) st = Inr st1"
    and b1: "bounded_inv lhs rhs st1" and t1: "todo lhs rhs st1 \<le> todo lhs rhs st"
    by blast
  from final_inv_product_move [OF Cons.prems(1,3) mv]
  have f1: "final_inv lhs rhs st1" and m1: "map_of (product_map st1) pr = Some r"
    by simp_all
  have "\<forall>g \<in> set rest.
          set (states_to (fst g)) \<times> set (states_to (snd g)) \<subseteq> state_pairs lhs rhs"
    using Cons.prems(4) by simp
  from Cons.IH [OF f1 b1 m1 this] obtain st' where
    "sync_loop lhs rhs pr rest st1 = Inr st'" "bounded_inv lhs rhs st'"
    "todo lhs rhs st' \<le> todo lhs rhs st1"
    by blast
  with mv t1 show ?case by (auto simp: bindE_def)
qed

lemma lhs_epsilon_total:
  assumes "nfa_wf lhs" and "final_inv lhs rhs st" and "bounded_inv lhs rhs st"
      and "map_of (product_map st) pr = Some r"
  shows "\<exists>st'. lhs_epsilon eps lhs rhs pr st = Inr st'
              \<and> bounded_inv lhs rhs st' \<and> todo lhs rhs st' \<le> todo lhs rhs st"
proof (cases "transition_relation lhs ! fst pr \<noteq> []
              \<and> symbol (last (transition_relation lhs ! fst pr)) = eps")
  case False
  then show ?thesis using assms(3) by (auto simp: lhs_epsilon_def Let_def)
next
  case True
  let ?ms = "transition_relation lhs ! fst pr"
  from assms(3,4) have pr: "pr \<in> state_pairs lhs rhs"
    by (auto simp: bounded_inv_def)
  then have p: "fst pr < length (transition_relation lhs)"
    and q: "snd pr < length (transition_relation rhs)"
    by (auto simp: state_pairs_def)
  have "last ?ms \<in> set ?ms" using True by simp
  then have "\<forall>s \<in> set (states_to (last ?ms)). s < length (transition_relation lhs)"
    using nfa_wf_target [OF assms(1) p] by blast
  then have "set (map (\<lambda>p'. (p', snd pr)) (states_to (last ?ms))) \<subseteq> state_pairs lhs rhs"
    using q by (auto simp: state_pairs_def)
  from product_move_total [OF assms(2,3,4) this, of eps] True
  show ?thesis by (simp add: lhs_epsilon_def Let_def)
qed

lemma rhs_epsilon_total:
  assumes "nfa_wf rhs" and "final_inv lhs rhs st" and "bounded_inv lhs rhs st"
      and "map_of (product_map st) pr = Some r"
  shows "\<exists>st'. rhs_epsilon eps lhs rhs pr st = Inr st'
              \<and> bounded_inv lhs rhs st' \<and> todo lhs rhs st' \<le> todo lhs rhs st"
proof (cases "transition_relation rhs ! snd pr \<noteq> []
              \<and> symbol (last (transition_relation rhs ! snd pr)) = eps")
  case False
  then show ?thesis using assms(3) by (auto simp: rhs_epsilon_def Let_def)
next
  case True
  let ?ms = "transition_relation rhs ! snd pr"
  from assms(3,4) have pr: "pr \<in> state_pairs lhs rhs"
    by (auto simp: bounded_inv_def)
  then have p: "fst pr < length (transition_relation lhs)"
    and q: "snd pr < length (transition_relation rhs)"
    by (auto simp: state_pairs_def)
  have "last ?ms \<in> set ?ms" using True by simp
  then have "\<forall>s \<in> set (states_to (last ?ms)). s < length (transition_relation rhs)"
    using nfa_wf_target [OF assms(1) q] by blast
  then have "set (map (\<lambda>q'. (fst pr, q')) (states_to (last ?ms))) \<subseteq> state_pairs lhs rhs"
    using p by (auto simp: state_pairs_def)
  from product_move_total [OF assms(2,3,4) this, of eps] True
  show ?thesis by (simp add: rhs_epsilon_def Let_def)
qed

lemma process_pair_total:
  assumes "nfa_wf lhs" and "nfa_wf rhs"
      and "final_inv lhs rhs st" and "bounded_inv lhs rhs st"
      and "map_of (product_map st) pr = Some r"
  shows "\<exists>st'. process_pair eps lhs rhs preserve_epsilon pr st = Inr st'
              \<and> bounded_inv lhs rhs st' \<and> todo lhs rhs st' \<le> todo lhs rhs st"
proof -
  let ?ms1 = "transition_relation lhs ! fst pr"
  let ?ms2 = "transition_relation rhs ! snd pr"
  from assms(4,5) have pr: "pr \<in> state_pairs lhs rhs"
    by (auto simp: bounded_inv_def)
  then have p: "fst pr < length (transition_relation lhs)"
    and q: "snd pr < length (transition_relation rhs)"
    by (auto simp: state_pairs_def)
  have groups: "\<forall>g \<in> set (sync_moves ?ms1 ?ms2).
                  set (states_to (fst g)) \<times> set (states_to (snd g)) \<subseteq> state_pairs lhs rhs"
  proof
    fix g assume "g \<in> set (sync_moves ?ms1 ?ms2)"
    from sync_moves_subset [OF this] have "fst g \<in> set ?ms1" "snd g \<in> set ?ms2" by simp_all
    then show "set (states_to (fst g)) \<times> set (states_to (snd g)) \<subseteq> state_pairs lhs rhs"
      using nfa_wf_target [OF assms(1) p] nfa_wf_target [OF assms(2) q]
      by (auto simp: state_pairs_def)
  qed
  from sync_loop_total [OF assms(3,4,5) groups] obtain st1 where
    sl: "sync_loop lhs rhs pr (sync_moves ?ms1 ?ms2) st = Inr st1"
    and b1: "bounded_inv lhs rhs st1" and t1: "todo lhs rhs st1 \<le> todo lhs rhs st"
    by blast
  from final_inv_sync_loop [OF assms(3,5) sl]
  have f1: "final_inv lhs rhs st1" and m1: "map_of (product_map st1) pr = Some r"
    by simp_all
  show ?thesis
  proof (cases preserve_epsilon)
    case False
    with sl b1 t1 p q show ?thesis by (simp add: process_pair_def bindE_def)
  next
    case True
    from lhs_epsilon_total [OF assms(1) f1 b1 m1, of eps] obtain st2 where
      le: "lhs_epsilon eps lhs rhs pr st1 = Inr st2"
      and b2: "bounded_inv lhs rhs st2" and t2: "todo lhs rhs st2 \<le> todo lhs rhs st1"
      by blast
    from final_inv_lhs_epsilon [OF f1 m1 le]
    have f2: "final_inv lhs rhs st2" and m2: "map_of (product_map st2) pr = Some r"
      by simp_all
    from rhs_epsilon_total [OF assms(2) f2 b2 m2, of eps] obtain st3 where
      re: "rhs_epsilon eps lhs rhs pr st2 = Inr st3"
      and b3: "bounded_inv lhs rhs st3" and t3: "todo lhs rhs st3 \<le> todo lhs rhs st2"
      by blast
    have "process_pair eps lhs rhs preserve_epsilon pr st = Inr st3"
      using True p q sl le re by (simp add: process_pair_def bindE_def)
    with b3 t1 t2 t3 show ?thesis by auto
  qed
qed

lemma intersection_loop_total:
  assumes "nfa_wf lhs" and "nfa_wf rhs"
      and "final_inv lhs rhs st" and "bounded_inv lhs rhs st"
      and "todo lhs rhs st < fuel"
  shows "\<exists>st'. intersection_loop pick fuel eps lhs rhs preserve_epsilon st = Some (Inr st')"
  using assms(3,4,5)
proof (induction fuel arbitrary: st)
  case 0
  then show ?case by simp
next
  case (Suc fuel)
  show ?case
  proof (cases "pairs_to_process st = []")
    case True
    then show ?thesis by simp
  next
    case False
    let ?ps = "pairs_to_process st"
    let ?pr = "?ps ! (pick fuel ?ps mod length ?ps)"
    let ?st0 = "st\<lparr>pairs_to_process := removeAll ?pr ?ps\<rparr>"
    have mem: "?pr \<in> set ?ps" using False by simp
    then obtain r where r: "map_of (product_map ?st0) ?pr = Some r"
      using Suc.prems(1) by (auto simp: final_inv_def)
    have f0: "final_inv lhs rhs ?st0"
      using Suc.prems(1) by (auto simp: final_inv_def)
    have b0: "bounded_inv lhs rhs ?st0"
      using Suc.prems(2) by (auto simp: bounded_inv_def distinct_removeAll)
    have "distinct ?ps" using Suc.prems(2) by (simp add: bounded_inv_def)
    then have "length (removeAll ?pr ?ps) = length ?ps - 1"
      using mem by (simp add: distinct_remove1_removeAll [symmetric] length_remove1)
    moreover have "0 < length ?ps" using False by simp
    ultimately have t0: "todo lhs rhs ?st0 < todo lhs rhs st"
      by (simp add: todo_def)
    from process_pair_total [OF assms(1,2) f0 b0 r, of eps preserve_epsilon] obtain st1 where
      pp: "process_pair eps lhs rhs preserve_epsilon ?pr ?st0 = Inr st1"
      and b1: "bounded_inv lhs rhs st1" and t1: "todo lhs rhs st1 \<le> todo lhs rhs ?st0"
      by blast
    have f1: "final_inv lhs rhs st1" using final_inv_process_pair [OF f0 r pp] .
    have "todo lhs rhs st1 < fuel" using t0 t1 Suc.prems(3) by linarith
    from Suc.IH [OF f1 b1 this] obtain st' where
      "intersection_loop pick fuel eps lhs rhs preserve_epsilon st1 = Some (Inr st')"
      by blast
    with False pp show ?thesis by (simp add: Let_def)
  qed
qed

lemma bounded_init_pair:
  assumes "bounded_inv lhs rhs st" and "pr \<in> state_pairs lhs rhs"
  shows "bounded_inv lhs rhs (init_pair lhs rhs pr st)"
  using assms
  by (auto simp: bounded_inv_def init_pair_def Let_def update_conv' pairs_insert_def)

lemma bounded_fold_init:
  assumes "bounded_inv lhs rhs st" and "set prs \<subseteq> state_pairs lhs rhs"
  shows "bounded_inv lhs rhs (fold (init_pair lhs rhs) prs st)"
  using assms by (induction prs arbitrary: st) (simp_all add: bounded_init_pair)

lemma bounded_init_product:
  assumes "nfa_wf lhs" and "nfa_wf rhs"
  shows "bounded_inv lhs rhs (init_product lhs rhs)"
proof -
  have "set (List.product (initial_states lhs) (initial_states rhs)) \<subseteq> state_pairs lhs rhs"
    using assms by (auto simp: nfa_wf_def state_pairs_def list_all_iff)
  then show ?thesis
    unfolding init_product_def
    by (rule bounded_fold_init [rotated]) (simp add: bounded_inv_def)
qed

lemma todo_bound:
  assumes "final_inv lhs rhs st" and "bounded_inv lhs rhs st"
  shows "todo lhs rhs st \<le> length (transition_relation lhs) * length (transition_relation rhs)"
proof -
  let ?U = "state_pairs lhs rhs"
  let ?D = "dom (map_of (product_map st))"
  have sub: "?D \<subseteq> ?U" using assms(2) by (simp add: bounded_inv_def)
  have finD: "finite ?D" using sub finite_state_pairs by (rule finite_subset)
  have "length (pairs_to_process st) = card (set (pairs_to_process st))"
    using assms(2) by (simp add: bounded_inv_def distinct_card)
  also have "\<dots> \<le> card ?D"
    using assms(1) finD by (auto simp: final_inv_def intro: card_mono)
  finally have "length (pairs_to_process st) \<le> card ?D" .
  moreover have "card (?U - ?D) = card ?U - card ?D"
    using sub finD by (simp add: card_Diff_subset)
  moreover have "card ?D \<le> card ?U"
    using sub finite_state_pairs by (simp add: card_mono)
  moreover have "card ?U = length (transition_relation lhs) * length (transition_relation rhs)"
    by (simp add: state_pairs_def)
  ultimately show ?thesis by (simp add: todo_def)
qed

lemma intersection_total:
  assumes "nfa_wf lhs" and "nfa_wf rhs"
      and "length (transition_relation lhs) * length (transition_relation rhs) < fuel"
  shows "\<exists>aut pmap. intersection pick fuel eps lhs rhs preserve_epsilon = Some (Inr (aut, pmap))"
proof -
  have f: "final_inv lhs rhs (init_product lhs rhs)" by (rule final_inv_init_product)
  have b: "bounded_inv lhs rhs (init_product lhs rhs)"
    using assms(1,2) by (rule bounded_init_product)
  have "todo lhs rhs (init_product lhs rhs) < fuel"
    using todo_bound [OF f b] assms(3) by linarith
  from intersection_loop_total [OF assms(1,2) f b this] obtain st' where
    "intersection_loop pick fuel eps lhs rhs preserve_epsilon (init_product lhs rhs)
       = Some (Inr st')"
    by blast
  then show ?thesis by (simp add: intersection_def)
qed

section \<open>Finality of the product states\<close>

text \<open>C4: for either value of \<open>preserve_epsilon\<close>, \<open>intersection\<close> returns the product and
  the product map of two automata whose initial states and targets are states, once the
  rounds it may run exceed the number of pairs of states; and whenever it returns them,
  the product state that the map gives to a pair \<open>(p, q)\<close> is among the final states of the
  product exactly when \<open>p\<close> is final in the left automaton and \<open>q\<close> is final in the right
  one. The map holds the states allocated for the initial pairs and those discovered by
  the work-list loop alike.\<close>

theorem product_state_final_iff:
  "(nfa_wf lhs \<and> nfa_wf rhs
      \<and> length (transition_relation lhs) * length (transition_relation rhs) < fuel
    \<longrightarrow> (\<exists>aut pmap. intersection pick fuel eps lhs rhs preserve_epsilon
                        = Some (Inr (aut, pmap))))
   \<and> (\<forall>aut pmap p q r.
         intersection pick fuel eps lhs rhs preserve_epsilon = Some (Inr (aut, pmap))
         \<and> map_of pmap (p, q) = Some r
       \<longrightarrow> (r \<in> set (final_states aut) \<longleftrightarrow> nfa_has_final lhs p \<and> nfa_has_final rhs q))"
  using intersection_total [of lhs rhs fuel pick eps preserve_epsilon]
        product_state_final_partial [of pick fuel eps lhs rhs preserve_epsilon]
  by blast

theorem product_state_final_iff_witness:
  "nfa_wf c5_lhs \<and> nfa_wf c5_rhs
   \<and> length (transition_relation c5_lhs) * length (transition_relation c5_rhs) < 5
   \<and> (\<exists>aut pmap. intersection (\<lambda>n ps. 0) 5 100 c5_lhs c5_rhs True = Some (Inr (aut, pmap)))
   \<and> intersection (\<lambda>n ps. 0) 5 100 c5_lhs c5_rhs True = Some (Inr (c5_product, c5_map))
   \<and> map_of c5_map (1, 0) = Some 1
   \<and> (1 \<in> set (final_states c5_product) \<longleftrightarrow> nfa_has_final c5_lhs 1 \<and> nfa_has_final c5_rhs 0)
   \<and> 1 \<in> set (final_states c5_product)"
proof -
  have wf: "nfa_wf c5_lhs" "nfa_wf c5_rhs"
      "length (transition_relation c5_lhs) * length (transition_relation c5_rhs) < 5"
    by (simp_all add: nfa_wf_def c5_lhs_def c5_rhs_def)
  have run: "intersection (\<lambda>n ps. 0) 5 100 c5_lhs c5_rhs True = Some (Inr (c5_product, c5_map))"
    by code_simp
  have look: "map_of c5_map (1, 0) = Some 1"
    by (simp add: c5_map_def)
  have fin: "1 \<in> set (final_states c5_product)"
    by (simp add: c5_product_def)
  note inst = product_state_final_iff [of c5_lhs c5_rhs 5 "\<lambda>n ps. 0" 100 True]
  from inst wf have ex:
    "\<exists>aut pmap. intersection (\<lambda>n ps. 0) 5 100 c5_lhs c5_rhs True = Some (Inr (aut, pmap))"
    by blast
  from inst run look have
    "1 \<in> set (final_states c5_product) \<longleftrightarrow> nfa_has_final c5_lhs 1 \<and> nfa_has_final c5_rhs 0"
    by blast
  with wf ex run look fin show ?thesis by simp
qed

section \<open>Epsilon moves in the product\<close>

lemma extends_refl: "extends st st"
  by (simp add: extends_def)

lemma extends_trans:
  assumes "extends a b" and "extends b c"
  shows "extends a c"
  using assms unfolding extends_def by (simp; blast)

lemma extends_map:
  assumes "extends st st'" and "map_of (product_map st) pr = Some r"
  shows "map_of (product_map st') pr = Some r"
  using assms unfolding extends_def by blast

lemma has_transition_add_state:
  assumes "has_transition aut r sy r'"
  shows "has_transition (aut\<lparr>transition_relation := transition_relation aut @ [[]],
                             final_states := fs\<rparr>) r sy r'"
    and "has_transition (aut\<lparr>transition_relation := transition_relation aut @ [[]]\<rparr>) r sy r'"
  using assms by (auto simp: has_transition_def nth_append)

lemma extends_create: "extends (fst acc) (fst (create_product_state_and_trans lhs rhs pr acc))"
proof (cases "map_of (product_map (fst acc)) pr")
  case (Some r)
  then show ?thesis by (simp add: create_product_state_and_trans_def Let_def extends_refl)
next
  case None
  then show ?thesis
    unfolding extends_def create_product_state_and_trans_def
    by (auto simp: Let_def nfa_add_state_def nfa_add_final_def set_pairs_insert update_conv'
                   has_transition_add_state)
qed

lemma extends_fold_create:
  "extends (fst acc) (fst (fold (create_product_state_and_trans lhs rhs) targets acc))"
proof (induction targets arbitrary: acc)
  case Nil
  show ?case by (simp add: extends_refl)
next
  case (Cons t targets)
  show ?case
    using extends_trans [OF extends_create Cons.IH] by simp
qed

lemma union_to_left_keeps:
  assumes "list_ex (\<lambda>m. symbol m = sy' \<and> x \<in> set (states_to m)) ms"
  shows "list_ex (\<lambda>m. symbol m = sy' \<and> x \<in> set (states_to m)) (union_to_left sy ts ms)"
  using assms by (induction ms) (auto simp: set_ord_union)

lemma union_to_left_has:
  assumes "list_ex (\<lambda>m. symbol m = sy) ms" and "x \<in> set ts"
  shows "list_ex (\<lambda>m. symbol m = sy \<and> x \<in> set (states_to m)) (union_to_left sy ts ms)"
  using assms by (induction ms) (auto simp: set_ord_union)

lemma extends_add_product_transition:
  assumes "map_of (product_map st) pr = Some r"
      and "add_product_transition st pr it = Inr st'"
  shows "extends st st'"
proof (cases "states_to it = []")
  case True
  with assms show ?thesis by (simp add: add_product_transition_def extends_refl)
next
  case False
  let ?rel = "transition_relation (product st)"
  let ?new = "(if list_ex (\<lambda>m. symbol m = symbol it) (?rel ! r)
               then union_to_left (symbol it) (states_to it) (?rel ! r)
               else ?rel ! r @ [it])"
  from assms False have r: "r < length ?rel"
    and st': "st' = st\<lparr>product := (product st)\<lparr>transition_relation := ?rel[r := ?new]\<rparr>\<rparr>"
    by (auto simp: add_product_transition_def Let_def split: if_splits)
  have "has_transition (product st') r0 sy r'" if h: "has_transition (product st) r0 sy r'"
    for r0 sy r'
  proof (cases "r0 = r")
    case False
    with h show ?thesis by (simp add: st' has_transition_def)
  next
    case True
    from h True have "list_ex (\<lambda>m. symbol m = sy \<and> r' \<in> set (states_to m)) (?rel ! r)"
      by (simp add: has_transition_def)
    then have "list_ex (\<lambda>m. symbol m = sy \<and> r' \<in> set (states_to m)) ?new"
      by (auto simp: union_to_left_keeps)
    with r True show ?thesis by (simp add: st' has_transition_def)
  qed
  then show ?thesis by (auto simp: extends_def st')
qed

lemma has_add_product_transition:
  assumes "map_of (product_map st) pr = Some r"
      and "add_product_transition st pr it = Inr st'"
      and "r' \<in> set (states_to it)"
  shows "has_transition (product st') r (symbol it) r'"
proof -
  let ?rel = "transition_relation (product st)"
  let ?new = "(if list_ex (\<lambda>m. symbol m = symbol it) (?rel ! r)
               then union_to_left (symbol it) (states_to it) (?rel ! r)
               else ?rel ! r @ [it])"
  from assms(3) have "states_to it \<noteq> []" by auto
  with assms have r: "r < length ?rel"
    and st': "st' = st\<lparr>product := (product st)\<lparr>transition_relation := ?rel[r := ?new]\<rparr>\<rparr>"
    by (auto simp: add_product_transition_def Let_def split: if_splits)
  have "list_ex (\<lambda>m. symbol m = symbol it \<and> r' \<in> set (states_to m)) ?new"
    using assms(3) by (auto simp: union_to_left_has)
  with r show ?thesis by (simp add: st' has_transition_def)
qed

lemma states_to_create:
  assumes "x \<in> set (states_to (snd acc))"
  shows "x \<in> set (states_to (snd (create_product_state_and_trans lhs rhs pr acc)))"
  using assms
  by (cases "map_of (product_map (fst acc)) pr")
     (auto simp: create_product_state_and_trans_def Let_def set_ord_insert)

lemma states_to_fold_create:
  assumes "x \<in> set (states_to (snd acc))"
  shows "x \<in> set (states_to (snd (fold (create_product_state_and_trans lhs rhs) targets acc)))"
  using assms by (induction targets arbitrary: acc) (simp_all add: states_to_create)

lemma symbol_create:
  "symbol (snd (create_product_state_and_trans lhs rhs pr acc)) = symbol (snd acc)"
  by (cases "map_of (product_map (fst acc)) pr")
     (auto simp: create_product_state_and_trans_def Let_def)

lemma symbol_fold_create:
  "symbol (snd (fold (create_product_state_and_trans lhs rhs) targets acc)) = symbol (snd acc)"
  by (induction targets arbitrary: acc) (simp_all add: symbol_create)

lemma created_target:
  "\<exists>r'. map_of (product_map (fst (create_product_state_and_trans lhs rhs pr acc))) pr = Some r'
        \<and> r' \<in> set (states_to (snd (create_product_state_and_trans lhs rhs pr acc)))"
  by (cases "map_of (product_map (fst acc)) pr")
     (auto simp: create_product_state_and_trans_def Let_def set_ord_insert update_conv')

lemma fold_create_targets:
  assumes "t \<in> set targets"
  shows "\<exists>r'. map_of (product_map (fst (fold (create_product_state_and_trans lhs rhs) targets acc))) t
                = Some r'
             \<and> r' \<in> set (states_to (snd (fold (create_product_state_and_trans lhs rhs) targets acc)))"
  using assms
proof (induction targets arbitrary: acc)
  case Nil
  then show ?case by simp
next
  case (Cons u targets)
  show ?case
  proof (cases "t \<in> set targets")
    case True
    from Cons.IH [OF this] show ?thesis by simp
  next
    case False
    with Cons.prems have "t = u" by simp
    then obtain r' where
      "map_of (product_map (fst (create_product_state_and_trans lhs rhs u acc))) t = Some r'"
      "r' \<in> set (states_to (snd (create_product_state_and_trans lhs rhs u acc)))"
      using created_target [of lhs rhs u acc] by auto
    then show ?thesis
      by (auto simp: map_fold_create states_to_fold_create)
  qed
qed

lemma product_move_targets:
  assumes "map_of (product_map st) pr = Some r"
      and "product_move lhs rhs pr sy targets st = Inr st'"
  shows "extends st st'"
    and "\<forall>t \<in> set targets. \<exists>r'. map_of (product_map st') t = Some r'
                                 \<and> has_transition (product st') r sy r'"
proof -
  let ?acc = "fold (create_product_state_and_trans lhs rhs) targets
                (st, \<lparr>symbol = sy, states_to = []\<rparr>)"
  have mp: "map_of (product_map (fst ?acc)) pr = Some r"
    using assms(1) by (simp add: map_fold_create)
  have add: "add_product_transition (fst ?acc) pr (snd ?acc) = Inr st'"
    using assms(2) by (simp add: product_move_def Let_def)
  have e1: "extends st (fst ?acc)"
    using extends_fold_create [of "(st, \<lparr>symbol = sy, states_to = []\<rparr>)" lhs rhs targets]
    by simp
  have e2: "extends (fst ?acc) st'"
    using extends_add_product_transition [OF mp add] .
  show "extends st st'" using extends_trans [OF e1 e2] .
  have sy: "symbol (snd ?acc) = sy" by (simp add: symbol_fold_create)
  show "\<forall>t \<in> set targets. \<exists>r'. map_of (product_map st') t = Some r'
                                 \<and> has_transition (product st') r sy r'"
  proof
    fix t assume "t \<in> set targets"
    from fold_create_targets [OF this] obtain r' where
      r': "map_of (product_map (fst ?acc)) t = Some r'" "r' \<in> set (states_to (snd ?acc))"
      by blast
    from extends_map [OF e2 r'(1)] has_add_product_transition [OF mp add r'(2)] sy
    show "\<exists>r'. map_of (product_map st') t = Some r' \<and> has_transition (product st') r sy r'"
      by auto
  qed
qed

lemma extends_sync_loop:
  assumes "map_of (product_map st) pr = Some r"
      and "sync_loop lhs rhs pr groups st = Inr st'"
  shows "extends st st'"
  using assms
proof (induction groups arbitrary: st)
  case Nil
  then show ?case by (simp add: extends_refl)
next
  case (Cons moves rest)
  from Cons.prems(2) obtain st1 where
    mv: "product_move lhs rhs pr (symbol (fst moves))
           (List.product (states_to (fst moves)) (states_to (snd moves))) st = Inr st1"
    and lp: "sync_loop lhs rhs pr rest st1 = Inr st'"
    by (auto simp: bindE_def split: sum.splits)
  have e1: "extends st st1" using product_move_targets(1) [OF Cons.prems(1) mv] .
  from Cons.IH [OF extends_map [OF e1 Cons.prems(1)] lp] have "extends st1 st'" .
  with e1 show ?case by (rule extends_trans)
qed

lemma epsilon_done_mono:
  assumes "extends st st'" and "epsilon_done eps lhs rhs st pr"
  shows "epsilon_done eps lhs rhs st' pr"
proof -
  have m: "\<And>pr r. map_of (product_map st) pr = Some r \<Longrightarrow> map_of (product_map st') pr = Some r"
    using assms(1) unfolding extends_def by blast
  have t: "\<And>r sy r'. has_transition (product st) r sy r' \<Longrightarrow> has_transition (product st') r sy r'"
    using assms(1) unfolding extends_def by blast
  show ?thesis
    using assms(2) unfolding epsilon_done_def by (meson m t)
qed

lemma lhs_epsilon_done:
  assumes "map_of (product_map st) pr = Some r"
      and "lhs_epsilon eps lhs rhs pr st = Inr st'"
  shows "extends st st'"
    and "transition_relation lhs ! fst pr \<noteq> []
           \<and> symbol (last (transition_relation lhs ! fst pr)) = eps \<longrightarrow>
         (\<forall>p' \<in> set (states_to (last (transition_relation lhs ! fst pr))).
            \<exists>r'. map_of (product_map st') (p', snd pr) = Some r'
                \<and> has_transition (product st') r eps r')"
proof -
  let ?ms = "transition_relation lhs ! fst pr"
  show "extends st st'"
    using assms product_move_targets(1) [OF assms(1)]
    by (auto simp: lhs_epsilon_def Let_def extends_refl split: if_splits)
  show "?ms \<noteq> [] \<and> symbol (last ?ms) = eps \<longrightarrow>
         (\<forall>p' \<in> set (states_to (last ?ms)).
            \<exists>r'. map_of (product_map st') (p', snd pr) = Some r'
                \<and> has_transition (product st') r eps r')"
  proof
    assume eps: "?ms \<noteq> [] \<and> symbol (last ?ms) = eps"
    with assms(2) have
      "product_move lhs rhs pr eps (map (\<lambda>p'. (p', snd pr)) (states_to (last ?ms))) st = Inr st'"
      by (simp add: lhs_epsilon_def Let_def)
    from product_move_targets(2) [OF assms(1) this]
    show "\<forall>p' \<in> set (states_to (last ?ms)).
            \<exists>r'. map_of (product_map st') (p', snd pr) = Some r'
                \<and> has_transition (product st') r eps r'"
      by simp
  qed
qed

lemma rhs_epsilon_done:
  assumes "map_of (product_map st) pr = Some r"
      and "rhs_epsilon eps lhs rhs pr st = Inr st'"
  shows "extends st st'"
    and "transition_relation rhs ! snd pr \<noteq> []
           \<and> symbol (last (transition_relation rhs ! snd pr)) = eps \<longrightarrow>
         (\<forall>q' \<in> set (states_to (last (transition_relation rhs ! snd pr))).
            \<exists>r'. map_of (product_map st') (fst pr, q') = Some r'
                \<and> has_transition (product st') r eps r')"
proof -
  let ?ms = "transition_relation rhs ! snd pr"
  show "extends st st'"
    using assms product_move_targets(1) [OF assms(1)]
    by (auto simp: rhs_epsilon_def Let_def extends_refl split: if_splits)
  show "?ms \<noteq> [] \<and> symbol (last ?ms) = eps \<longrightarrow>
         (\<forall>q' \<in> set (states_to (last ?ms)).
            \<exists>r'. map_of (product_map st') (fst pr, q') = Some r'
                \<and> has_transition (product st') r eps r')"
  proof
    assume eps: "?ms \<noteq> [] \<and> symbol (last ?ms) = eps"
    with assms(2) have
      "product_move lhs rhs pr eps (map (\<lambda>q'. (fst pr, q')) (states_to (last ?ms))) st = Inr st'"
      by (simp add: rhs_epsilon_def Let_def)
    from product_move_targets(2) [OF assms(1) this]
    show "\<forall>q' \<in> set (states_to (last ?ms)).
            \<exists>r'. map_of (product_map st') (fst pr, q') = Some r'
                \<and> has_transition (product st') r eps r'"
      by simp
  qed
qed

lemma process_pair_done:
  assumes "map_of (product_map st) pr = Some r"
      and "process_pair eps lhs rhs True pr st = Inr st'"
  shows "extends st st'" and "epsilon_done eps lhs rhs st' pr"
proof -
  from assms(2) have range: "fst pr < length (transition_relation lhs)"
      "snd pr < length (transition_relation rhs)"
    by (auto simp: process_pair_def split: if_splits)
  from assms(2) obtain st1 st2 where
    sl: "sync_loop lhs rhs pr
           (sync_moves (transition_relation lhs ! fst pr) (transition_relation rhs ! snd pr)) st
         = Inr st1"
    and le: "lhs_epsilon eps lhs rhs pr st1 = Inr st2"
    and re: "rhs_epsilon eps lhs rhs pr st2 = Inr st'"
    by (auto simp: process_pair_def bindE_def split: if_splits sum.splits)
  have e1: "extends st st1" using extends_sync_loop [OF assms(1) sl] .
  have m1: "map_of (product_map st1) pr = Some r" using extends_map [OF e1 assms(1)] .
  have e2: "extends st1 st2" using lhs_epsilon_done(1) [OF m1 le] .
  have m2: "map_of (product_map st2) pr = Some r" using extends_map [OF e2 m1] .
  have e3: "extends st2 st'" using rhs_epsilon_done(1) [OF m2 re] .
  have m3: "map_of (product_map st') pr = Some r" using extends_map [OF e3 m2] .
  show "extends st st'" using extends_trans [OF extends_trans [OF e1 e2] e3] .
  have left: "transition_relation lhs ! fst pr \<noteq> []
           \<and> symbol (last (transition_relation lhs ! fst pr)) = eps \<longrightarrow>
         (\<forall>p' \<in> set (states_to (last (transition_relation lhs ! fst pr))).
            \<exists>r'. map_of (product_map st') (p', snd pr) = Some r'
                \<and> has_transition (product st') r eps r')"
  proof (intro impI ballI)
    fix p'
    assume "transition_relation lhs ! fst pr \<noteq> []
              \<and> symbol (last (transition_relation lhs ! fst pr)) = eps"
       and "p' \<in> set (states_to (last (transition_relation lhs ! fst pr)))"
    with lhs_epsilon_done(2) [OF m1 le] obtain r' where
      "map_of (product_map st2) (p', snd pr) = Some r'" "has_transition (product st2) r eps r'"
      by blast
    with e3 show "\<exists>r'. map_of (product_map st') (p', snd pr) = Some r'
                      \<and> has_transition (product st') r eps r'"
      unfolding extends_def by blast
  qed
  show "epsilon_done eps lhs rhs st' pr"
    unfolding epsilon_done_def
    using range m3 left rhs_epsilon_done(2) [OF m2 re] by simp
qed

lemma epsilon_inv_loop:
  assumes "final_inv lhs rhs st" and "epsilon_inv eps lhs rhs st"
      and "intersection_loop pick fuel eps lhs rhs True st = Some (Inr st')"
  shows "epsilon_inv eps lhs rhs st' \<and> pairs_to_process st' = []"
  using assms
proof (induction fuel arbitrary: st)
  case 0
  then show ?case by simp
next
  case (Suc fuel)
  show ?case
  proof (cases "pairs_to_process st = []")
    case True
    with Suc.prems show ?thesis by simp
  next
    case False
    let ?ps = "pairs_to_process st"
    let ?pr = "?ps ! (pick fuel ?ps mod length ?ps)"
    let ?st0 = "st\<lparr>pairs_to_process := removeAll ?pr ?ps\<rparr>"
    have "?pr \<in> set ?ps" using False by simp
    then obtain r where r: "map_of (product_map ?st0) ?pr = Some r"
      using Suc.prems(1) by (auto simp: final_inv_def)
    have inv0: "final_inv lhs rhs ?st0"
      using Suc.prems(1) by (auto simp: final_inv_def)
    from Suc.prems(3) False obtain st1 where
      pp: "process_pair eps lhs rhs True ?pr ?st0 = Inr st1"
      and lp: "intersection_loop pick fuel eps lhs rhs True st1 = Some (Inr st')"
      by (auto simp: Let_def split: sum.splits)
    have inv1: "final_inv lhs rhs st1" using final_inv_process_pair [OF inv0 r pp] .
    have ext: "extends ?st0 st1" using process_pair_done(1) [OF r pp] .
    have pdone: "epsilon_done eps lhs rhs st1 ?pr" using process_pair_done(2) [OF r pp] .
    have "epsilon_done eps lhs rhs st1 pr"
      if dom: "pr \<in> dom (map_of (product_map st1))" and np: "pr \<notin> set (pairs_to_process st1)"
      for pr
    proof (cases "pr = ?pr")
      case True
      with pdone show ?thesis by simp
    next
      case False
      from ext dom np have d0: "pr \<in> dom (map_of (product_map st))"
        unfolding extends_def by auto
      from ext np have "pr \<notin> set (removeAll ?pr ?ps)"
        unfolding extends_def by auto
      with False have "pr \<notin> set ?ps" by simp
      with d0 Suc.prems(2) have "epsilon_done eps lhs rhs st pr"
        unfolding epsilon_inv_def by blast
      then have "epsilon_done eps lhs rhs ?st0 pr"
        by (simp add: epsilon_done_def)
      from epsilon_done_mono [OF ext this] show ?thesis .
    qed
    then have "epsilon_inv eps lhs rhs st1" unfolding epsilon_inv_def by blast
    from Suc.IH [OF inv1 this lp] show ?thesis .
  qed
qed

lemma pending_init_pair:
  assumes "dom (map_of (product_map st)) \<subseteq> set (pairs_to_process st)"
  shows "dom (map_of (product_map (init_pair lhs rhs pr st)))
           \<subseteq> set (pairs_to_process (init_pair lhs rhs pr st))"
  using assms by (auto simp: init_pair_def Let_def set_pairs_insert update_conv')

lemma pending_fold_init:
  assumes "dom (map_of (product_map st)) \<subseteq> set (pairs_to_process st)"
  shows "dom (map_of (product_map (fold (init_pair lhs rhs) prs st)))
           \<subseteq> set (pairs_to_process (fold (init_pair lhs rhs) prs st))"
  using assms by (induction prs arbitrary: st) (simp_all add: pending_init_pair)

lemma epsilon_inv_init_product: "epsilon_inv eps lhs rhs (init_product lhs rhs)"
proof -
  have "dom (map_of (product_map (init_product lhs rhs)))
          \<subseteq> set (pairs_to_process (init_product lhs rhs))"
    unfolding init_product_def by (rule pending_fold_init) simp
  then show ?thesis unfolding epsilon_inv_def by blast
qed

lemma epsilon_moves_partial:
  assumes "intersection pick fuel eps lhs rhs True = Some (Inr (aut, pmap))"
      and "map_of pmap (p, q) = Some r"
  shows "p < length (transition_relation lhs) \<and> q < length (transition_relation rhs)
         \<and> (transition_relation lhs ! p \<noteq> [] \<and> symbol (last (transition_relation lhs ! p)) = eps
              \<longrightarrow> (\<forall>p' \<in> set (states_to (last (transition_relation lhs ! p))).
                     \<exists>r'. map_of pmap (p', q) = Some r' \<and> has_transition aut r eps r'))
         \<and> (transition_relation rhs ! q \<noteq> [] \<and> symbol (last (transition_relation rhs ! q)) = eps
              \<longrightarrow> (\<forall>q' \<in> set (states_to (last (transition_relation rhs ! q))).
                     \<exists>r'. map_of pmap (p, q') = Some r' \<and> has_transition aut r eps r'))"
proof -
  from assms(1) obtain st where st:
    "intersection_loop pick fuel eps lhs rhs True (init_product lhs rhs) = Some (Inr st)"
    "product st = aut" "product_map st = pmap"
    by (rule intersection_result)
  from epsilon_inv_loop [OF final_inv_init_product epsilon_inv_init_product st(1)]
  have "epsilon_inv eps lhs rhs st" "pairs_to_process st = []" by simp_all
  with assms(2) st(3) have "epsilon_done eps lhs rhs st (p, q)"
    unfolding epsilon_inv_def by auto
  with assms(2) st(2,3) show ?thesis
    unfolding epsilon_done_def by simp
qed

text \<open>C5: \<open>intersection\<close> with \<open>preserve_epsilon\<close> returns the product and the product
  map of two automata whose initial states and targets are states, once the rounds it may
  run exceed the number of pairs of states; and whenever it returns them, every pair
  \<open>(p, q)\<close> of the product map has been processed, with both move lists in range. If the
  move list of \<open>p\<close> in the left automaton is not empty and its last entry carries epsilon,
  then every target \<open>p'\<close> of that entry gives a mapped pair \<open>(p', q)\<close> and the product has
  an epsilon transition from the state of \<open>(p, q)\<close> to the state of \<open>(p', q)\<close>; and the same
  for the right automaton with the pairs \<open>(p, q')\<close>.\<close>

theorem epsilon_moves_preserved:
  "(nfa_wf lhs \<and> nfa_wf rhs
      \<and> length (transition_relation lhs) * length (transition_relation rhs) < fuel
    \<longrightarrow> (\<exists>aut pmap. intersection pick fuel eps lhs rhs True = Some (Inr (aut, pmap))))
   \<and> (\<forall>aut pmap p q r.
         intersection pick fuel eps lhs rhs True = Some (Inr (aut, pmap))
         \<and> map_of pmap (p, q) = Some r
       \<longrightarrow> p < length (transition_relation lhs) \<and> q < length (transition_relation rhs)
           \<and> (transition_relation lhs ! p \<noteq> []
                 \<and> symbol (last (transition_relation lhs ! p)) = eps
               \<longrightarrow> (\<forall>p' \<in> set (states_to (last (transition_relation lhs ! p))).
                      \<exists>r'. map_of pmap (p', q) = Some r' \<and> has_transition aut r eps r'))
           \<and> (transition_relation rhs ! q \<noteq> []
                 \<and> symbol (last (transition_relation rhs ! q)) = eps
               \<longrightarrow> (\<forall>q' \<in> set (states_to (last (transition_relation rhs ! q))).
                      \<exists>r'. map_of pmap (p, q') = Some r' \<and> has_transition aut r eps r')))"
  using intersection_total [of lhs rhs fuel pick eps True]
        epsilon_moves_partial [of pick fuel eps lhs rhs]
  by blast

theorem epsilon_moves_preserved_witness:
  "nfa_wf c5_lhs \<and> nfa_wf c5_rhs
   \<and> length (transition_relation c5_lhs) * length (transition_relation c5_rhs) < 5
   \<and> (\<exists>aut pmap. intersection (\<lambda>n ps. 0) 5 100 c5_lhs c5_rhs True = Some (Inr (aut, pmap)))
   \<and> intersection (\<lambda>n ps. 0) 5 100 c5_lhs c5_rhs True = Some (Inr (c5_product, c5_map))
   \<and> map_of c5_map (0, 0) = Some 0
   \<and> transition_relation c5_lhs ! 0 \<noteq> []
   \<and> symbol (last (transition_relation c5_lhs ! 0)) = 100
   \<and> 1 \<in> set (states_to (last (transition_relation c5_lhs ! 0)))
   \<and> (\<exists>r'. map_of c5_map (1, 0) = Some r' \<and> has_transition c5_product 0 100 r')"
proof -
  have wf: "nfa_wf c5_lhs" "nfa_wf c5_rhs"
      "length (transition_relation c5_lhs) * length (transition_relation c5_rhs) < 5"
    by (simp_all add: nfa_wf_def c5_lhs_def c5_rhs_def)
  have run: "intersection (\<lambda>n ps. 0) 5 100 c5_lhs c5_rhs True = Some (Inr (c5_product, c5_map))"
    by code_simp
  have look: "map_of c5_map (0, 0) = Some 0"
    by (simp add: c5_map_def)
  have entry: "transition_relation c5_lhs ! 0 \<noteq> []"
      "symbol (last (transition_relation c5_lhs ! 0)) = 100"
      "1 \<in> set (states_to (last (transition_relation c5_lhs ! 0)))"
    by (simp_all add: c5_lhs_def)
  note inst = epsilon_moves_preserved [of c5_lhs c5_rhs 5 "\<lambda>n ps. 0" 100]
  from inst wf have ex:
    "\<exists>aut pmap. intersection (\<lambda>n ps. 0) 5 100 c5_lhs c5_rhs True = Some (Inr (aut, pmap))"
    by blast
  from inst run look entry
  have "\<exists>r'. map_of c5_map (1, 0) = Some r' \<and> has_transition c5_product 0 100 r'"
    by blast
  with wf ex run look entry show ?thesis by simp
qed

end
